theory Spec2Isabelle
  imports Main "HOL-Library.Word"
begin

unbundle bit_operations_syntax

section \<open>Common types\<close>

type_synonym byte = "8 word"

text \<open>
  A Go \<^verbatim>\<open>string\<close> is an immutable byte sequence; \<^verbatim>\<open>string(bs)\<close> of a byte slice keeps the
  bytes as they are.
\<close>

type_synonym gostring = "byte list"

text \<open>
  Go errors and run-time panics that the modelled functions can produce.
\<close>

datatype error =
    ErrCipherNotInitialized
  | ErrDataLength
  | ErrCreateCipher
  | PanicIndexOutOfRange
  | PanicSliceBounds
  | PanicMakeSliceLen
  | PanicDivideByZero

section \<open>Package packets: Buffer\<close>

text \<open>
  \<^verbatim>\<open>Buffer\<close> embeds \<^verbatim>\<open>bytes.Buffer\<close>; its content is the list of bytes written so far.
  \<^verbatim>\<open>binary.Write\<close> into a \<^verbatim>\<open>bytes.Buffer\<close> appends the little-endian bytes of the value.
  Every write method returns an \<^verbatim>\<open>error\<close>, the left summand of the result; a write into a
  \<^verbatim>\<open>bytes.Buffer\<close> returns \<^verbatim>\<open>nil\<close>.
\<close>

type_synonym Buffer = "byte list"

definition NewBuffer :: Buffer where
  "NewBuffer = []"

definition WriteUInt16 :: "Buffer \<Rightarrow> 16 word \<Rightarrow> error + Buffer" where
  "WriteUInt16 b v = Inr (b @ [ucast v, ucast (drop_bit 8 v)])"

definition WriteUInt8 :: "Buffer \<Rightarrow> byte \<Rightarrow> error + Buffer" where
  "WriteUInt8 b v = Inr (b @ [v])"

definition WriteBytes :: "Buffer \<Rightarrow> byte list \<Rightarrow> error + Buffer" where
  "WriteBytes b data = Inr (b @ data)"

definition WritePacketHeader :: "Buffer \<Rightarrow> byte \<Rightarrow> 16 word \<Rightarrow> error + Buffer" where
  "WritePacketHeader b opcode len =
     (case WriteUInt16 b len of
        Inl err \<Rightarrow> Inl err
      | Inr b1 \<Rightarrow> WriteUInt8 b1 opcode)"

definition PrependLength :: "Buffer \<Rightarrow> error + Buffer" where
  "PrependLength b =
     (let data = b;
          len = (of_nat (length data) :: 16 word)
      in case WriteUInt16 NewBuffer len of
           Inl err \<Rightarrow> Inl err
         | Inr newBuf1 \<Rightarrow>
             (case WriteBytes newBuf1 data of
                Inl err \<Rightarrow> Inl err
              | Inr newBuf2 \<Rightarrow> WriteBytes NewBuffer newBuf2))"

section \<open>Package packets: Reader\<close>

text \<open>
  \<^verbatim>\<open>Reader\<close> embeds \<^verbatim>\<open>bytes.Reader\<close>, whose state is the underlying slice \<^verbatim>\<open>s\<close> and the
  read index \<^verbatim>\<open>i\<close>.
\<close>

record Reader =
  Reader_s :: "byte list"
  Reader_i :: nat

definition NewReader :: "byte list \<Rightarrow> Reader" where
  "NewReader buffer = \<lparr>Reader_s = buffer, Reader_i = 0\<rparr>"

definition Reader_Len :: "Reader \<Rightarrow> nat" where
  "Reader_Len r = (if Reader_i r \<ge> length (Reader_s r) then 0 else length (Reader_s r) - Reader_i r)"

text \<open>
  \<^verbatim>\<open>bytes.Reader.Read(b)\<close> with \<^verbatim>\<open>len(b) = number\<close>: at the end of the data it returns
  \<^verbatim>\<open>(0, io.EOF)\<close> and leaves \<^verbatim>\<open>b\<close> (all zero after \<^verbatim>\<open>make\<close>) untouched; otherwise it copies
  \<^verbatim>\<open>min(len(b), remaining)\<close> bytes and advances the index by that count. The result is the
  destination slice after the call, the count \<^verbatim>\<open>n\<close> and the reader.
\<close>

definition Reader_Read :: "Reader \<Rightarrow> nat \<Rightarrow> byte list \<times> nat \<times> Reader" where
  "Reader_Read r number =
     (if Reader_i r \<ge> length (Reader_s r) then (replicate number 0, 0, r)
      else let n = min number (length (Reader_s r) - Reader_i r)
           in (take n (drop (Reader_i r) (Reader_s r)) @ replicate (number - n) 0,
               n,
               r\<lparr>Reader_i := Reader_i r + n\<rparr>))"

text \<open>
  \<^verbatim>\<open>bytes.Reader.ReadByte\<close>: \<^verbatim>\<open>(0, io.EOF)\<close> at the end of the data, the next byte otherwise.
  The boolean is \<^verbatim>\<open>err != nil\<close>.
\<close>

definition Reader_ReadByte :: "Reader \<Rightarrow> byte \<times> bool \<times> Reader" where
  "Reader_ReadByte r =
     (if Reader_i r \<ge> length (Reader_s r) then (0, True, r)
      else (Reader_s r ! Reader_i r, False, r\<lparr>Reader_i := Reader_i r + 1\<rparr>))"

text \<open>
  \<^verbatim>\<open>ReadBytes(number int)\<close> starts with \<^verbatim>\<open>make([]byte, number)\<close>, before anything is read.
  \<^verbatim>\<open>make\<close> panics for a negative length and for a length above what the run-time system
  can allocate; neither returns a slice. The largest length that \<^verbatim>\<open>make\<close> can allocate
  depends on the platform and the memory at hand (at most \<open>2^48\<close> bytes on 64-bit Linux)
  and is the parameter \<open>maxAlloc\<close>. It is below the largest \<^verbatim>\<open>int\<close>, so a count that an
  \<^verbatim>\<open>int\<close> cannot hold is above it.
\<close>

definition ReadBytes :: "nat \<Rightarrow> Reader \<Rightarrow> int \<Rightarrow> error + (byte list \<times> Reader)" where
  "ReadBytes maxAlloc r number =
     (if number < 0 \<or> int maxAlloc < number then Inl PanicMakeSliceLen
      else let (buffer, n, r') = Reader_Read r (nat number)
           in if int n < number then Inr ([], r') else Inr (buffer, r'))"

definition ReadUInt16 :: "Reader \<Rightarrow> 16 word \<times> Reader" where
  "ReadUInt16 r =
     (let (buffer, n, r') = Reader_Read r 2
      in if n < 2 then (0, r')
         else ((ucast (buffer ! 0) :: 16 word) OR push_bit 8 (ucast (buffer ! 1)), r'))"

definition ReadUInt8 :: "Reader \<Rightarrow> byte \<times> Reader" where
  "ReadUInt8 r =
     (let (buffer, n, r') = Reader_Read r 1
      in if n < 1 then (0, r') else (buffer ! 0, r'))"

subsection \<open>Frames\<close>

text \<open>
  The two ways the package offers to build a frame: \<^verbatim>\<open>WritePacketHeader(opcode, length)\<close>
  followed by the payload, with the length chosen by the caller; and opcode and payload
  written first, then \<^verbatim>\<open>PrependLength()\<close>.
\<close>

definition encode_with_header :: "byte \<Rightarrow> 16 word \<Rightarrow> byte list \<Rightarrow> error + Buffer" where
  "encode_with_header opcode len payload =
     (case WritePacketHeader NewBuffer opcode len of
        Inl err \<Rightarrow> Inl err
      | Inr b \<Rightarrow> WriteBytes b payload)"

definition encode_prepend :: "byte \<Rightarrow> byte list \<Rightarrow> error + Buffer" where
  "encode_prepend opcode payload =
     (case WriteUInt8 NewBuffer opcode of
        Inl err \<Rightarrow> Inl err
      | Inr b1 \<Rightarrow>
          (case WriteBytes b1 payload of
             Inl err \<Rightarrow> Inl err
           | Inr b2 \<Rightarrow> PrependLength b2))"

text \<open>
  Decoding with the Reader: the uint16 length, the uint8 opcode, then all remaining bytes.
  The frame is a slice in memory, so a slice of its length can be allocated: the decoder
  runs under the least allocation limit that admits the frame, its length. The count it
  passes to \<^verbatim>\<open>ReadBytes\<close>, the bytes that remain, is within that limit and within every
  larger one.
\<close>

definition decode_frame :: "byte list \<Rightarrow> error + (16 word \<times> byte \<times> byte list)" where
  "decode_frame frame =
     (let r = NewReader frame;
          (len, r1) = ReadUInt16 r;
          (opcode, r2) = ReadUInt8 r1
      in case ReadBytes (length frame) r2 (int (Reader_Len r2)) of
           Inl err \<Rightarrow> Inl err
         | Inr (payload, r3) \<Rightarrow> Inr (len, opcode, payload))"

subsection \<open>Strings\<close>

text \<open>
  \<^verbatim>\<open>for _, r := range value\<close> decodes the string as UTF-8, one rune per iteration; an
  invalid or truncated sequence yields \<^verbatim>\<open>utf8.RuneError\<close> (U+FFFD) and advances by one byte.
  \<open>decoderune\<close> is the step of that iteration: the rune at the head of a non-empty
  string and its width in bytes.
\<close>

type_synonym rune = "32 word"

definition runeError :: rune where
  "runeError = 0xFFFD"

definition is_cont :: "byte \<Rightarrow> bool" where
  "is_cont b = (0x80 \<le> b \<and> b \<le> 0xBF)"

definition decoderune :: "byte list \<Rightarrow> rune \<times> nat" where
  "decoderune s =
     (case s of
        [] \<Rightarrow> (runeError, 1)
      | b0 # t \<Rightarrow>
          if b0 < 0x80 then (ucast b0, 1)
          else if 0xC0 \<le> b0 \<and> b0 < 0xE0 then
            (case t of
               b1 # _ \<Rightarrow>
                 if is_cont b1 then
                   (let r = push_bit 6 (ucast (b0 AND 0x1F)) OR ucast (b1 AND 0x3F)
                    in if (0x7F :: rune) < r then (r, 2) else (runeError, 1))
                 else (runeError, 1)
             | _ \<Rightarrow> (runeError, 1))
          else if 0xE0 \<le> b0 \<and> b0 < 0xF0 then
            (case t of
               b1 # b2 # _ \<Rightarrow>
                 if is_cont b1 \<and> is_cont b2 then
                   (let r = push_bit 12 (ucast (b0 AND 0x0F)) OR push_bit 6 (ucast (b1 AND 0x3F))
                              OR ucast (b2 AND 0x3F)
                    in if (0x7FF :: rune) < r \<and> \<not> (0xD800 \<le> r \<and> r \<le> 0xDFFF)
                       then (r, 3) else (runeError, 1))
                 else (runeError, 1)
             | _ \<Rightarrow> (runeError, 1))
          else if 0xF0 \<le> b0 \<and> b0 < 0xF8 then
            (case t of
               b1 # b2 # b3 # _ \<Rightarrow>
                 if is_cont b1 \<and> is_cont b2 \<and> is_cont b3 then
                   (let r = push_bit 18 (ucast (b0 AND 0x07)) OR push_bit 12 (ucast (b1 AND 0x3F))
                              OR push_bit 6 (ucast (b2 AND 0x3F)) OR ucast (b3 AND 0x3F)
                    in if (0xFFFF :: rune) < r \<and> r \<le> 0x10FFFF then (r, 4) else (runeError, 1))
                 else (runeError, 1)
             | _ \<Rightarrow> (runeError, 1))
          else (runeError, 1))"

function range_runes :: "gostring \<Rightarrow> rune list" where
  "range_runes s =
     (if s = [] then []
      else fst (decoderune s) # range_runes (drop (snd (decoderune s)) s))"
  by pat_completeness auto
termination
proof (relation "measure length")
  fix s :: gostring
  assume "s \<noteq> []"
  moreover have "0 < snd (decoderune s)"
    by (simp add: decoderune_def Let_def split: list.split)
  ultimately show "(drop (snd (decoderune s)) s, s) \<in> measure length"
    by simp
qed simp

declare range_runes.simps [simp del]

text \<open>
  \<^verbatim>\<open>WriteString\<close>: one \<^verbatim>\<open>WriteUInt16(uint16(r))\<close> per rune, returning at the first error, then
  the 16-bit zero terminator.
\<close>

fun WriteString_loop :: "Buffer \<Rightarrow> rune list \<Rightarrow> error + Buffer" where
  "WriteString_loop b [] = Inr b"
| "WriteString_loop b (r # rs) =
     (case WriteUInt16 b (ucast r) of
        Inl err \<Rightarrow> Inl err
      | Inr b' \<Rightarrow> WriteString_loop b' rs)"

definition WriteString :: "Buffer \<Rightarrow> gostring \<Rightarrow> error + Buffer" where
  "WriteString b v =
     (case WriteString_loop b (range_runes v) of
        Inl err \<Rightarrow> Inl err
      | Inr b' \<Rightarrow> WriteUInt16 b' 0)"

text \<open>
  \<^verbatim>\<open>ReadString\<close>: the \<^verbatim>\<open>for\<close> loop reads two bytes per iteration, ignoring the error of
  \<^verbatim>\<open>ReadByte\<close> (which returns the byte 0 at the end of the data), and stops when both are
  zero. The loop is recursive on the reader; it is total because an iteration that does
  not stop has read at least one byte.
\<close>

function ReadString_loop :: "Reader \<Rightarrow> byte list \<Rightarrow> byte list \<times> Reader" where
  "ReadString_loop r result =
     (let first_byte = fst (Reader_ReadByte r);
          r1 = snd (snd (Reader_ReadByte r));
          second_byte = fst (Reader_ReadByte r1);
          r2 = snd (snd (Reader_ReadByte r1))
      in if first_byte = 0 \<and> second_byte = 0 then (result, r2)
         else ReadString_loop r2 (result @ [first_byte, second_byte]))"
  by pat_completeness auto
termination
  by (relation "measure (\<lambda>(r, result). length (Reader_s r) - Reader_i r)")
     (auto simp add: Reader_ReadByte_def split: if_splits)

declare ReadString_loop.simps [simp del]

definition ReadString :: "Reader \<Rightarrow> gostring \<times> Reader" where
  "ReadString r = ReadString_loop r []"

text \<open>
  A buffer holds a terminator when one of the byte pairs that \<^verbatim>\<open>ReadString\<close> reads from its
  start (offsets 0-1, 2-3, ...) is the 16-bit zero. \<open>unterminated_result\<close> is what the
  loop has collected when the data ends first: a lone last byte is paired with the zero
  that \<^verbatim>\<open>ReadByte\<close> returns at the end of the data.
\<close>

fun has_terminator :: "byte list \<Rightarrow> bool" where
  "has_terminator (a # b # rest) = ((a = 0 \<and> b = 0) \<or> has_terminator rest)"
| "has_terminator _ = False"

fun unterminated_result :: "byte list \<Rightarrow> byte list" where
  "unterminated_result (a # b # rest) = a # b # unterminated_result rest"
| "unterminated_result [a] = (if a = 0 then [] else [a, 0])"
| "unterminated_result [] = []"

text \<open>
  The UTF-16LE code units of a string of ASCII characters, as bytes: every character
  followed by a zero byte.
\<close>

definition utf16_bytes :: "byte list \<Rightarrow> byte list" where
  "utf16_bytes s = concat (map (\<lambda>b. [b, 0]) s)"

section \<open>Package loginserver\<close>

subsection \<open>Data\<close>

text \<open>
  \<^verbatim>\<open>models.Account\<close>; \<^verbatim>\<open>AccessLevel\<close> is an \<^verbatim>\<open>int8\<close>, compared as a signed value.
\<close>

record Account =
  Account_Id :: "64 word"
  Account_Username :: gostring
  Account_Password :: gostring
  Account_AccessLevel :: "8 word"

text \<open>
  The fields of \<^verbatim>\<open>models.Client\<close> that the login server uses. The socket is a handle;
  which handles have been closed is part of the server state below.
\<close>

record Client =
  Client_SessionID :: "byte list"
  Client_Socket :: nat
  Client_Account :: Account

record loginServerStatus =
  successfulAccountCreation :: "32 word"
  failedAccountCreation :: "32 word"
  successfulLogins :: "32 word"
  failedLogins :: "32 word"
  hackAttempts :: "32 word"

text \<open>
  An entry of \<^verbatim>\<open>config.GameServers\<close>; the login server reads \<^verbatim>\<open>Options.Testing\<close> only.
\<close>

record GameServerConfig =
  Options_Testing :: bool

text \<open>
  \<^verbatim>\<open>LoginServer\<close>: the client registry (the entries stand for the pointed-to clients, whose
  session identifier and socket never change), the status counters, the two fields of the
  configuration that the handlers read, and the set of socket handles on which
  \<^verbatim>\<open>Close\<close> has been called.
\<close>

record LoginServer =
  clients :: "Client list"
  status :: loginServerStatus
  config_GameServers :: "GameServerConfig list"
  config_AutoCreate :: bool
  closed :: "nat set"

subsection \<open>kickClient\<close>

text \<open>
  The \<^verbatim>\<open>for i, item := range l.clients\<close> loop of \<^verbatim>\<open>kickClient\<close>, from index \<open>i\<close>. At the
  first entry whose session identifier equals the client's (\<^verbatim>\<open>bytes.Equal\<close>), the tail is
  copied one place down and the slice shortened by one, which deletes index \<open>i\<close>; then
  the loop breaks.
\<close>

function kickClient_loop :: "Client list \<Rightarrow> Client \<Rightarrow> nat \<Rightarrow> Client list" where
  "kickClient_loop cs client i =
     (if i < length cs then
        (if Client_SessionID (cs ! i) = Client_SessionID client
         then take i cs @ drop (i + 1) cs
         else kickClient_loop cs client (i + 1))
      else cs)"
  by pat_completeness auto
termination
  by (relation "measure (\<lambda>(cs, client, i). length cs - i)") auto

declare kickClient_loop.simps [simp del]

definition kickClient :: "LoginServer \<Rightarrow> Client \<Rightarrow> LoginServer" where
  "kickClient l client =
     (let l1 = l\<lparr>closed := insert (Client_Socket client) (closed l)\<rparr>
      in l1\<lparr>clients := kickClient_loop (clients l1) client 0\<rparr>)"

subsection \<open>Collaborators\<close>

text \<open>
  The request parsers of package \<^verbatim>\<open>clientpackets\<close>, the account database, \<^verbatim>\<open>bcrypt\<close> and
  the constant \<^verbatim>\<open>ACCESS_LEVEL_PLAYER\<close> are declared outside the files at hand. The handler
  takes them as parameters. A request's \<^verbatim>\<open>ServerID\<close> is the unsigned byte of the wire format.
\<close>

record RequestAuthLogin =
  RequestAuthLogin_Username :: gostring
  RequestAuthLogin_Password :: gostring

record RequestPlay =
  RequestPlay_ServerID :: byte
  RequestPlay_SessionID :: "byte list"

record RequestServerList =
  RequestServerList_SessionID :: "byte list"

datatype query_result = ErrNoRows | QueryError | Row Account

record collaborators =
  NewRequestAuthLogin :: "byte list \<Rightarrow> RequestAuthLogin"
  NewRequestPlay :: "byte list \<Rightarrow> RequestPlay"
  NewRequestServerList :: "byte list \<Rightarrow> RequestServerList"
  QueryRow :: "gostring \<Rightarrow> query_result"
  GenerateFromPassword :: "gostring \<Rightarrow> gostring option"
  Exec_insert :: "gostring \<Rightarrow> gostring \<Rightarrow> 8 word \<Rightarrow> 64 word option"
  CompareHashAndPassword :: "gostring \<Rightarrow> gostring \<Rightarrow> bool"
  ACCESS_LEVEL_PLAYER :: "8 word"
  RemoteAddr :: "nat \<Rightarrow> gostring"

text \<open>
  The packets of package \<^verbatim>\<open>serverpackets\<close>, by constructor.
\<close>

datatype reason = REASON_SYSTEM_ERROR | REASON_USER_OR_PASS_WRONG | REASON_ACCESS_FAILED

datatype ServerPacket =
    NewLoginFailPacket reason
  | NewLoginOkPacket "byte list"
  | NewPlayOkPacket
  | NewPlayFailPacket reason
  | NewServerListPacket "GameServerConfig list" gostring

subsection \<open>handleClientPackets: one iteration of the loop\<close>

definition inc_successfulAccountCreation :: "LoginServer \<Rightarrow> LoginServer" where
  "inc_successfulAccountCreation l =
     l\<lparr>status := (status l)\<lparr>successfulAccountCreation := successfulAccountCreation (status l) + 1\<rparr>\<rparr>"

definition inc_failedAccountCreation :: "LoginServer \<Rightarrow> LoginServer" where
  "inc_failedAccountCreation l =
     l\<lparr>status := (status l)\<lparr>failedAccountCreation := failedAccountCreation (status l) + 1\<rparr>\<rparr>"

definition inc_successfulLogins :: "LoginServer \<Rightarrow> LoginServer" where
  "inc_successfulLogins l =
     l\<lparr>status := (status l)\<lparr>successfulLogins := successfulLogins (status l) + 1\<rparr>\<rparr>"

definition inc_failedLogins :: "LoginServer \<Rightarrow> LoginServer" where
  "inc_failedLogins l =
     l\<lparr>status := (status l)\<lparr>failedLogins := failedLogins (status l) + 1\<rparr>\<rparr>"

definition inc_hackAttempts :: "LoginServer \<Rightarrow> LoginServer" where
  "inc_hackAttempts l =
     l\<lparr>status := (status l)\<lparr>hackAttempts := hackAttempts (status l) + 1\<rparr>\<rparr>"

text \<open>
  \<^verbatim>\<open>case 00\<close>: the auth-login request. The result is the server, the client and the packet
  passed to \<^verbatim>\<open>client.Send\<close>.
\<close>

definition handleRequestAuthLogin ::
  "collaborators \<Rightarrow> LoginServer \<Rightarrow> Client \<Rightarrow> byte list \<Rightarrow> LoginServer \<times> Client \<times> ServerPacket" where
  "handleRequestAuthLogin co l client data =
     (let requestAuthLogin = NewRequestAuthLogin co data;
          username = RequestAuthLogin_Username requestAuthLogin;
          password = RequestAuthLogin_Password requestAuthLogin
      in case QueryRow co username of
           ErrNoRows \<Rightarrow>
             if config_AutoCreate l then
               (case GenerateFromPassword co password of
                  None \<Rightarrow>
                    (inc_failedAccountCreation l, client, NewLoginFailPacket REASON_SYSTEM_ERROR)
                | Some hashedPassword \<Rightarrow>
                    (case Exec_insert co username hashedPassword (ACCESS_LEVEL_PLAYER co) of
                       None \<Rightarrow>
                         (inc_failedAccountCreation l, client,
                          NewLoginFailPacket REASON_SYSTEM_ERROR)
                     | Some accountId \<Rightarrow>
                         (inc_successfulAccountCreation l,
                          client\<lparr>Client_Account :=
                            \<lparr>Account_Id = accountId,
                             Account_Username = username,
                             Account_Password = hashedPassword,
                             Account_AccessLevel = ACCESS_LEVEL_PLAYER co\<rparr>\<rparr>,
                          NewLoginOkPacket (Client_SessionID client))))
             else (inc_failedLogins l, client, NewLoginFailPacket REASON_USER_OR_PASS_WRONG)
         | QueryError \<Rightarrow> (l, client, NewLoginFailPacket REASON_SYSTEM_ERROR)
         | Row account \<Rightarrow>
             (let client1 = client\<lparr>Client_Account := account\<rparr>
              in if \<not> CompareHashAndPassword co (Account_Password (Client_Account client1)) password
                 then (inc_failedLogins l, client1, NewLoginFailPacket REASON_USER_OR_PASS_WRONG)
                 else if sint (Account_AccessLevel (Client_Account client1))
                           \<ge> sint (ACCESS_LEVEL_PLAYER co)
                 then (inc_successfulLogins l, client1,
                       NewLoginOkPacket (Client_SessionID client1))
                 else (inc_failedLogins l, client1, NewLoginFailPacket REASON_ACCESS_FAILED)))"

text \<open>
  \<^verbatim>\<open>case 02\<close>: the play request. \<^verbatim>\<open>&&\<close> and \<^verbatim>\<open>||\<close> evaluate their right operand only when
  needed; the index \<^verbatim>\<open>requestPlay.ServerID-1\<close> is computed in the type of \<^verbatim>\<open>ServerID\<close>, and
  indexing outside the slice panics, as does \<^verbatim>\<open>client.SessionID[:8]\<close> on a shorter slice.
  The session identifier is a slice made to its length, so that its capacity, which
  bounds \<^verbatim>\<open>[:8]\<close>, is its length.
\<close>

definition handleRequestPlay ::
  "collaborators \<Rightarrow> LoginServer \<Rightarrow> Client \<Rightarrow> byte list
     \<Rightarrow> error + (LoginServer \<times> Client \<times> ServerPacket)" where
  "handleRequestPlay co l client data =
     (let requestPlay = NewRequestPlay co data;
          servers = config_GameServers l;
          index = unat (RequestPlay_ServerID requestPlay - 1)
      in if length servers \<ge> unat (RequestPlay_ServerID requestPlay) then
           (if index \<ge> length servers then Inl PanicIndexOutOfRange
            else if Options_Testing (servers ! index) = False
                    \<or> sint (Account_AccessLevel (Client_Account client))
                         > sint (ACCESS_LEVEL_PLAYER co)
            then
              (if length (Client_SessionID client) < 8 then Inl PanicSliceBounds
               else if take 8 (Client_SessionID client) \<noteq> RequestPlay_SessionID requestPlay
               then Inr (inc_hackAttempts l, client, NewLoginFailPacket REASON_ACCESS_FAILED)
               else Inr (l, client, NewPlayOkPacket))
            else Inr (inc_hackAttempts l, client, NewPlayFailPacket REASON_ACCESS_FAILED))
         else Inr (inc_hackAttempts l, client, NewPlayFailPacket REASON_ACCESS_FAILED))"

text \<open>
  \<^verbatim>\<open>case 05\<close>: the server-list request.
\<close>

definition handleRequestServerList ::
  "collaborators \<Rightarrow> LoginServer \<Rightarrow> Client \<Rightarrow> byte list
     \<Rightarrow> error + (LoginServer \<times> Client \<times> ServerPacket)" where
  "handleRequestServerList co l client data =
     (let requestServerList = NewRequestServerList co data
      in if length (Client_SessionID client) < 8 then Inl PanicSliceBounds
         else if take 8 (Client_SessionID client) \<noteq> RequestServerList_SessionID requestServerList
         then Inr (inc_hackAttempts l, client, NewLoginFailPacket REASON_ACCESS_FAILED)
         else Inr (l, client,
                   NewServerListPacket (config_GameServers l) (RemoteAddr co (Client_Socket client))))"

text \<open>
  The \<^verbatim>\<open>switch opcode\<close> of the loop body, for a packet that \<^verbatim>\<open>client.Receive\<close> returned
  without error. The result is a panic, or the server and client after the iteration and
  the packet sent, if any; an error of \<^verbatim>\<open>client.Send\<close> is printed and changes nothing. The
  loop then reads the next packet: the body never closes the socket and never leaves the
  loop.
\<close>

definition handleClientPacket ::
  "collaborators \<Rightarrow> LoginServer \<Rightarrow> Client \<Rightarrow> byte \<Rightarrow> byte list
     \<Rightarrow> error + (LoginServer \<times> Client \<times> ServerPacket option)" where
  "handleClientPacket co l client opcode data =
     (if opcode = 0 then
        (let (l', client', buffer) = handleRequestAuthLogin co l client data
         in Inr (l', client', Some buffer))
      else if opcode = 2 then
        (case handleRequestPlay co l client data of
           Inl p \<Rightarrow> Inl p
         | Inr (l', client', buffer) \<Rightarrow> Inr (l', client', Some buffer))
      else if opcode = 5 then
        (case handleRequestServerList co l client data of
           Inl p \<Rightarrow> Inl p
         | Inr (l', client', buffer) \<Rightarrow> Inr (l', client', Some buffer))
      else Inr (l, client, None))"

subsection \<open>Counters and sample values\<close>

text \<open>
  One step of a \<^verbatim>\<open>uint32\<close> counter: unchanged, or \<^verbatim>\<open>+= 1\<close> in 32-bit arithmetic.
\<close>

definition counter_step :: "32 word \<Rightarrow> 32 word \<Rightarrow> bool" where
  "counter_step c c' = (c' = c \<or> c' = c + 1)"

definition status_step :: "loginServerStatus \<Rightarrow> loginServerStatus \<Rightarrow> bool" where
  "status_step s s' =
     (counter_step (successfulAccountCreation s) (successfulAccountCreation s') \<and>
      counter_step (failedAccountCreation s) (failedAccountCreation s') \<and>
      counter_step (successfulLogins s) (successfulLogins s') \<and>
      counter_step (failedLogins s) (failedLogins s') \<and>
      counter_step (hackAttempts s) (hackAttempts s'))"

text \<open>
  Modelled from the spec: the request parsers of package \<^verbatim>\<open>clientpackets\<close> and the account
  store are not among the files at hand. The spec names what a request carries (a play
  request: a target world-server id and a session-identifier prefix) and leaves the byte
  layout open. This instance, on which the handlers are evaluated, takes the session
  prefix from the first eight bytes of the payload and the server id from the ninth, and
  has an empty account store that accepts every insertion. With it come a client whose
  16-byte session identifier repeats one byte, and a server with three registered
  clients and one game server that is not a testing realm.
\<close>

definition example_collaborators :: collaborators where
  "example_collaborators =
     \<lparr>NewRequestAuthLogin =
        (\<lambda>data. \<lparr>RequestAuthLogin_Username = take 4 data,
                  RequestAuthLogin_Password = drop 4 data\<rparr>),
      NewRequestPlay =
        (\<lambda>data. \<lparr>RequestPlay_ServerID = (case drop 8 data of [] \<Rightarrow> 0 | b # _ \<Rightarrow> b),
                  RequestPlay_SessionID = take 8 data\<rparr>),
      NewRequestServerList = (\<lambda>data. \<lparr>RequestServerList_SessionID = take 8 data\<rparr>),
      QueryRow = (\<lambda>username. ErrNoRows),
      GenerateFromPassword = (\<lambda>password. Some password),
      Exec_insert = (\<lambda>username password level. Some 1),
      CompareHashAndPassword = (\<lambda>hash password. hash = password),
      ACCESS_LEVEL_PLAYER = 0,
      RemoteAddr = (\<lambda>socket. [])\<rparr>"

definition example_client :: "byte \<Rightarrow> Client" where
  "example_client n =
     \<lparr>Client_SessionID = replicate 16 n,
      Client_Socket = unat n,
      Client_Account =
        \<lparr>Account_Id = 0, Account_Username = [], Account_Password = [],
         Account_AccessLevel = 0\<rparr>\<rparr>"

definition example_server :: "32 word \<Rightarrow> LoginServer" where
  "example_server h =
     \<lparr>clients = [example_client 1, example_client 2, example_client 3],
      status =
        \<lparr>successfulAccountCreation = 0, failedAccountCreation = 0, successfulLogins = 0,
         failedLogins = 0, hackAttempts = h\<rparr>,
      config_GameServers = [\<lparr>Options_Testing = False\<rparr>],
      config_AutoCreate = True,
      closed = {}\<rparr>"

section \<open>Package protocol: CryptoEngine\<close>

text \<open>
  The built-in \<^verbatim>\<open>copy(dst, src)\<close>: the first \<^verbatim>\<open>min(len(dst), len(src))\<close> elements of \<open>dst\<close>
  are overwritten; the result is \<open>dst\<close> after the call.
\<close>

definition go_copy :: "'a list \<Rightarrow> 'a list \<Rightarrow> 'a list" where
  "go_copy dst src = take (length dst) src @ drop (length src) dst"

subsection \<open>The ciphers behind the engine\<close>

text \<open>
  The Blowfish cipher comes from \<^verbatim>\<open>golang.org/x/crypto/blowfish\<close>; the engine holds it as
  a \<^verbatim>\<open>cipher.Block\<close> and uses \<^verbatim>\<open>BlockSize()\<close>, \<^verbatim>\<open>Encrypt(dst, src)\<close> and
  \<^verbatim>\<open>Decrypt(dst, src)\<close> only. A block cipher is given by its block size and by the bytes
  that the two methods write to the front of \<open>dst\<close> for a source block.
\<close>

record Block =
  BlockSize :: nat
  Block_Encrypt :: "byte list \<Rightarrow> byte list"
  Block_Decrypt :: "byte list \<Rightarrow> byte list"

text \<open>
  What the engine relies on: blocks are not empty, both methods write one block, and
  \<^verbatim>\<open>Decrypt\<close> undoes \<^verbatim>\<open>Encrypt\<close> on a block.
\<close>

definition block_cipher :: "Block \<Rightarrow> bool" where
  "block_cipher c =
     (0 < BlockSize c \<and>
      (\<forall>b. length b = BlockSize c \<longrightarrow>
         length (Block_Encrypt c b) = BlockSize c \<and>
         length (Block_Decrypt c b) = BlockSize c \<and>
         Block_Decrypt c (Block_Encrypt c b) = b))"

text \<open>
  Package \<^verbatim>\<open>gameserver/crypt/xor\<close> is not among the files at hand. \<^verbatim>\<open>xor.Cipher\<close> has the
  two key slices that the engine reads; \<^verbatim>\<open>xor.NewCipher()\<close>, \<^verbatim>\<open>xor.Encrypt(data, key)\<close> and
  \<^verbatim>\<open>xor.Decrypt(data, key)\<close> are parameters. The last two work in place on the two slices
  they are given: their model returns both slices after the call.
\<close>

record xor_Cipher =
  InputKey :: "byte list"
  OutputKey :: "byte list"

record xor_package =
  xor_NewCipher :: xor_Cipher
  xor_Encrypt :: "byte list \<Rightarrow> byte list \<Rightarrow> byte list \<times> byte list"
  xor_Decrypt :: "byte list \<Rightarrow> byte list \<Rightarrow> byte list \<times> byte list"

text \<open>
  What a round trip through the package needs: a fresh cipher has the same key for both
  directions, and decrypting under the key that encrypted gives the data back.
\<close>

definition xor_inverse :: "xor_package \<Rightarrow> bool" where
  "xor_inverse X =
     (InputKey (xor_NewCipher X) = OutputKey (xor_NewCipher X) \<and>
      (\<forall>d k. fst (xor_Decrypt X (fst (xor_Encrypt X d k)) k) = d))"

record CryptoEngine =
  blowfishCipher :: "Block option"
  xorCipher :: "xor_Cipher option"

definition NewCryptoEngine :: CryptoEngine where
  "NewCryptoEngine = \<lparr>blowfishCipher = None, xorCipher = None\<rparr>"

subsection \<open>Initialization\<close>

definition InitializeBlowfish ::
  "(byte list \<Rightarrow> Block option) \<Rightarrow> CryptoEngine \<Rightarrow> byte list \<Rightarrow> error + CryptoEngine" where
  "InitializeBlowfish blowfish_NewCipher ce key =
     (case blowfish_NewCipher key of
        None \<Rightarrow> Inl ErrCreateCipher
      | Some c \<Rightarrow> Inr (ce\<lparr>blowfishCipher := Some c\<rparr>))"

definition InitializeXOR :: "xor_package \<Rightarrow> CryptoEngine \<Rightarrow> byte list \<Rightarrow> error + CryptoEngine" where
  "InitializeXOR X ce key =
     (let cipher = xor_NewCipher X;
          cipher' =
            (if length key \<ge> 8
             then cipher\<lparr>InputKey := go_copy (InputKey cipher) (take 8 key),
                         OutputKey := go_copy (OutputKey cipher) (take 8 key)\<rparr>
             else cipher)
      in Inr (ce\<lparr>xorCipher := Some cipher'\<rparr>))"

subsection \<open>Blowfish\<close>

text \<open>
  The loop \<^verbatim>\<open>for i := 0; i < len(src); i += blockSize\<close> of both Blowfish functions: the
  cipher method \<open>f\<close> reads \<^verbatim>\<open>src[i:i+blockSize]\<close> and writes \<^verbatim>\<open>dst[i:i+blockSize]\<close>. Both
  callers panic on a zero block size before they reach the loop.
\<close>

definition write_block :: "byte list \<Rightarrow> nat \<Rightarrow> byte list \<Rightarrow> byte list" where
  "write_block dst i blk = take i dst @ blk @ drop (i + length blk) dst"

function blocks_loop ::
  "(byte list \<Rightarrow> byte list) \<Rightarrow> nat \<Rightarrow> byte list \<Rightarrow> byte list \<Rightarrow> nat \<Rightarrow> byte list" where
  "blocks_loop f blockSize src dst i =
     (if 0 < blockSize \<and> i < length src
      then blocks_loop f blockSize src
             (write_block dst i (f (take blockSize (drop i src)))) (i + blockSize)
      else dst)"
  by pat_completeness auto
termination
  by (relation "measure (\<lambda>(f, blockSize, src, dst, i). length src - i)") auto

declare blocks_loop.simps [simp del]

definition EncryptBlowfish :: "CryptoEngine \<Rightarrow> byte list \<Rightarrow> error + byte list" where
  "EncryptBlowfish ce data =
     (case blowfishCipher ce of
        None \<Rightarrow> Inl ErrCipherNotInitialized
      | Some c \<Rightarrow>
          (let blockSize = BlockSize c
           in if blockSize = 0 then Inl PanicDivideByZero
              else
                (let padded =
                       go_copy
                         (replicate (((length data + blockSize - 1) div blockSize) * blockSize) 0)
                         data;
                     encrypted = replicate (length padded) 0
                 in Inr (blocks_loop (Block_Encrypt c) blockSize padded encrypted 0))))"

definition DecryptBlowfish :: "CryptoEngine \<Rightarrow> byte list \<Rightarrow> error + byte list" where
  "DecryptBlowfish ce data =
     (case blowfishCipher ce of
        None \<Rightarrow> Inl ErrCipherNotInitialized
      | Some c \<Rightarrow>
          (let blockSize = BlockSize c
           in if blockSize = 0 then Inl PanicDivideByZero
              else if length data mod blockSize \<noteq> 0 then Inl ErrDataLength
              else
                (let decrypted = replicate (length data) 0
                 in Inr (blocks_loop (Block_Decrypt c) blockSize data decrypted 0))))"

text \<open>
  The blocks of a buffer of \<open>k\<close> blocks, each mapped by \<open>f\<close>.
\<close>

fun map_blocks :: "(byte list \<Rightarrow> byte list) \<Rightarrow> nat \<Rightarrow> byte list \<Rightarrow> nat \<Rightarrow> byte list" where
  "map_blocks f blockSize src 0 = []"
| "map_blocks f blockSize src (Suc k) =
     f (take blockSize src) @ map_blocks f blockSize (drop blockSize src) k"

subsection \<open>XOR\<close>

text \<open>
  \<^verbatim>\<open>EncryptXOR\<close> and \<^verbatim>\<open>DecryptXOR\<close> copy the data and the cipher's key into fresh slices and
  call the package function on the copies. The result is the data copy after the call,
  with the engine after the call: the slices that the package function changed are the
  local ones, so the cipher's keys are the ones before the call.
\<close>

definition EncryptXOR ::
  "xor_package \<Rightarrow> CryptoEngine \<Rightarrow> byte list \<Rightarrow> error + (byte list \<times> CryptoEngine)" where
  "EncryptXOR X ce data =
     (case xorCipher ce of
        None \<Rightarrow> Inl ErrCipherNotInitialized
      | Some cipher \<Rightarrow>
          (let encrypted = go_copy (replicate (length data) 0) data;
               key = go_copy (replicate (length (OutputKey cipher)) 0) (OutputKey cipher);
               (encrypted', key') = xor_Encrypt X encrypted key
           in Inr (encrypted', ce)))"

definition DecryptXOR ::
  "xor_package \<Rightarrow> CryptoEngine \<Rightarrow> byte list \<Rightarrow> error + (byte list \<times> CryptoEngine)" where
  "DecryptXOR X ce data =
     (case xorCipher ce of
        None \<Rightarrow> Inl ErrCipherNotInitialized
      | Some cipher \<Rightarrow>
          (let decrypted = go_copy (replicate (length data) 0) data;
               key = go_copy (replicate (length (InputKey cipher)) 0) (InputKey cipher);
               (decrypted', key') = xor_Decrypt X decrypted key
           in Inr (decrypted', ce)))"

text \<open>
  A sequence of messages through the engine, one call after the other, each call on the
  engine that the previous one left.
\<close>

fun encrypt_all ::
  "xor_package \<Rightarrow> CryptoEngine \<Rightarrow> byte list list \<Rightarrow> error + (byte list list \<times> CryptoEngine)" where
  "encrypt_all X ce [] = Inr ([], ce)"
| "encrypt_all X ce (m # ms) =
     (case EncryptXOR X ce m of
        Inl err \<Rightarrow> Inl err
      | Inr (c, ce1) \<Rightarrow>
          (case encrypt_all X ce1 ms of
             Inl err \<Rightarrow> Inl err
           | Inr (cs, ce2) \<Rightarrow> Inr (c # cs, ce2)))"

fun decrypt_all ::
  "xor_package \<Rightarrow> CryptoEngine \<Rightarrow> byte list list \<Rightarrow> error + (byte list list \<times> CryptoEngine)" where
  "decrypt_all X ce [] = Inr ([], ce)"
| "decrypt_all X ce (c # cs) =
     (case DecryptXOR X ce c of
        Inl err \<Rightarrow> Inl err
      | Inr (m, ce1) \<Rightarrow>
          (case decrypt_all X ce1 cs of
             Inl err \<Rightarrow> Inl err
           | Inr (ms, ce2) \<Rightarrow> Inr (m # ms, ce2)))"

subsection \<open>Sample ciphers\<close>

text \<open>
  A block cipher on which the engine is evaluated: blocks of eight bytes, one added to
  every byte.
\<close>

definition example_block :: Block where
  "example_block =
     \<lparr>BlockSize = 8,
      Block_Encrypt = map (\<lambda>b. b + 1),
      Block_Decrypt = map (\<lambda>b. b - 1)\<rparr>"

text \<open>
  Modelled from the spec: package \<^verbatim>\<open>xor\<close> is not among the files at hand. The spec describes
  a rolling key (an operation consumes the current key and advances it from the bytes
  just processed) and leaves the rule open. This instance, on which the engine is
  evaluated, combines every data byte with the first key byte and then adds the length
  of the data to that key byte.
\<close>

definition example_xor_apply :: "byte list \<Rightarrow> byte list \<Rightarrow> byte list \<times> byte list" where
  "example_xor_apply data key =
     (case key of
        [] \<Rightarrow> (data, [])
      | k # ks \<Rightarrow> (map (\<lambda>b. b XOR k) data, (k + of_nat (length data)) # ks))"

definition example_xor :: xor_package where
  "example_xor =
     \<lparr>xor_NewCipher = \<lparr>InputKey = replicate 8 0, OutputKey = replicate 8 0\<rparr>,
      xor_Encrypt = example_xor_apply,
      xor_Decrypt = example_xor_apply\<rparr>"

section \<open>Reader.ReadBytes is all-or-nothing\<close>

lemma le_uint16_roundtrip:
  "(ucast (ucast (v :: 16 word) :: byte) :: 16 word) OR
     push_bit 8 (ucast (ucast (drop_bit 8 v) :: byte)) = v"
  by (rule bit_word_eqI) (auto simp add: bit_simps)

text \<open>
  Claim C10, as stated, fails for counts that \<^verbatim>\<open>make\<close> does not allocate. On a reader with
  three bytes left and the allocation limit \<open>2^48\<close> of 64-bit Linux, the count \<open>2^62\<close> is
  not answered with the empty slice and the count \<open>-1\<close> is not answered with the next
  bytes: \<^verbatim>\<open>ReadBytes\<close> panics in \<^verbatim>\<open>make\<close>, and nothing has been read.
\<close>

theorem ReadBytes_make_counterexample:
  "ReadBytes (2 ^ 48) (NewReader [1, 2, 3]) (2 ^ 62) = Inl PanicMakeSliceLen \<and>
   ReadBytes (2 ^ 48) (NewReader [1, 2, 3]) (- 1) = Inl PanicMakeSliceLen"
  by (simp add: ReadBytes_def)

text \<open>
  Claim C10, amended. For every reader state and every requested count \<open>n\<close> that is not
  negative and not above the allocation limit, \<^verbatim>\<open>ReadBytes(n)\<close> is all-or-nothing: when
  fewer than \<open>n\<close> bytes remain it returns the empty slice, never a partial prefix, and the
  bytes that were available are consumed (the index moves to the end of the data); when
  at least \<open>n\<close> bytes remain it returns exactly the next \<open>n\<close> bytes and the index advances
  by \<open>n\<close>. For a negative count and for a count above the allocation limit it panics
  before it reads.
\<close>

theorem ReadBytes_all_or_nothing:
  "(n \<le> maxAlloc \<longrightarrow>
      ReadBytes maxAlloc r (int n) =
        Inr (if Reader_Len r < n
             then ([], r\<lparr>Reader_i := Reader_i r + Reader_Len r\<rparr>)
             else (take n (drop (Reader_i r) (Reader_s r)), r\<lparr>Reader_i := Reader_i r + n\<rparr>))) \<and>
   (number < 0 \<or> int maxAlloc < number \<longrightarrow>
      ReadBytes maxAlloc r number = Inl PanicMakeSliceLen)"
  by (auto simp add: ReadBytes_def Reader_Read_def Reader_Len_def Let_def min_def)

theorem ReadBytes_all_or_nothing_witness:
  "(5 :: nat) \<le> 2 ^ 48 \<and>
   ReadBytes (2 ^ 48) \<lparr>Reader_s = [1, 2, 3, 4], Reader_i = 1\<rparr> 5 =
     Inr ([], \<lparr>Reader_s = [1, 2, 3, 4], Reader_i = 4\<rparr>) \<and>
   (2 :: nat) \<le> 2 ^ 48 \<and>
   ReadBytes (2 ^ 48) \<lparr>Reader_s = [1, 2, 3, 4], Reader_i = 1\<rparr> 2 =
     Inr ([2, 3], \<lparr>Reader_s = [1, 2, 3, 4], Reader_i = 3\<rparr>) \<and>
   int (2 ^ 48) < 2 ^ 62 \<and>
   ReadBytes (2 ^ 48) \<lparr>Reader_s = [1, 2, 3, 4], Reader_i = 1\<rparr> (2 ^ 62) =
     Inl PanicMakeSliceLen"
proof -
  let ?r = "\<lparr>Reader_s = [1, 2, 3, 4 :: byte], Reader_i = 1\<rparr>"
  have 5: "(5 :: nat) \<le> 2 ^ 48" and 2: "(2 :: nat) \<le> 2 ^ 48"
    and big: "int (2 ^ 48) < 2 ^ 62"
    by simp_all
  from ReadBytes_all_or_nothing [of 5 "2 ^ 48" ?r 0] 5
  have a: "ReadBytes (2 ^ 48) ?r 5 = Inr ([], \<lparr>Reader_s = [1, 2, 3, 4], Reader_i = 4\<rparr>)"
    by (simp add: Reader_Len_def)
  from ReadBytes_all_or_nothing [of 2 "2 ^ 48" ?r 0] 2
  have b: "ReadBytes (2 ^ 48) ?r 2 = Inr ([2, 3], \<lparr>Reader_s = [1, 2, 3, 4], Reader_i = 3\<rparr>)"
    by (simp add: Reader_Len_def)
  from ReadBytes_all_or_nothing [of 0 "2 ^ 48" ?r "2 ^ 62"] big
  have c: "ReadBytes (2 ^ 48) ?r (2 ^ 62) = Inl PanicMakeSliceLen"
    by simp
  from 5 2 big a b c show ?thesis by blast
qed

section \<open>Frame round trip\<close>

lemma encode_prepend_frame:
  "encode_prepend opcode payload =
     Inr ([ucast (of_nat (Suc (length payload)) :: 16 word),
           ucast (drop_bit 8 (of_nat (Suc (length payload)) :: 16 word)), opcode] @ payload)"
  by (simp add: encode_prepend_def WriteUInt8_def WriteBytes_def PrependLength_def
      WriteUInt16_def NewBuffer_def Let_def)

lemma encode_with_header_frame:
  "encode_with_header opcode len payload =
     Inr ([ucast len, ucast (drop_bit 8 len), opcode] @ payload)"
  by (simp add: encode_with_header_def WritePacketHeader_def WriteUInt8_def WriteBytes_def
      WriteUInt16_def NewBuffer_def)

lemma decode_frame_bytes:
  "decode_frame ([ucast (len :: 16 word), ucast (drop_bit 8 len), opcode] @ payload) =
     Inr (len, opcode, payload)"
  by (simp add: decode_frame_def NewReader_def ReadUInt16_def ReadUInt8_def ReadBytes_def
      Reader_Read_def Reader_Len_def Let_def le_uint16_roundtrip)

text \<open>
  Claim C1, as stated, fails: the length field that \<^verbatim>\<open>PrependLength\<close> writes counts the
  bytes that follow it, not the whole frame. For opcode 0 and the empty payload the frame
  has 3 bytes and its length field reads 1.
\<close>

theorem frame_length_field_counterexample:
  "encode_prepend 0 [] = Inr [1, 0, 0] \<and>
   decode_frame [1, 0, 0] = Inr (1, 0, []) \<and>
   unat (1 :: 16 word) \<noteq> length [1, 0, 0 :: byte]"
  by (simp add: encode_prepend_frame decode_frame_def NewReader_def ReadUInt16_def
      ReadUInt8_def ReadBytes_def Reader_Read_def Reader_Len_def Let_def)

text \<open>
  Claim C1, amended. For every opcode and payload, a frame built by
  \<^verbatim>\<open>WritePacketHeader(opcode, len)\<close> followed by the payload, or by writing opcode and
  payload and calling \<^verbatim>\<open>PrependLength\<close>, has \<open>length payload + 3\<close> bytes, and decoding it
  with the Reader returns the original opcode and payload. The length field read back is
  the caller's \<open>len\<close> in the first case; in the second it is the number of bytes after the
  length prefix, \<open>length payload + 1\<close>, reduced modulo \<open>2^16\<close>.
\<close>

theorem frame_roundtrip:
  "(case encode_with_header opcode len payload of
      Inl err \<Rightarrow> False
    | Inr frame \<Rightarrow>
        length frame = length payload + 3 \<and>
        decode_frame frame = Inr (len, opcode, payload)) \<and>
   (case encode_prepend opcode payload of
      Inl err \<Rightarrow> False
    | Inr frame \<Rightarrow>
        length frame = length payload + 3 \<and>
        (case decode_frame frame of
           Inl err \<Rightarrow> False
         | Inr (field, opcode', payload') \<Rightarrow>
             opcode' = opcode \<and> payload' = payload \<and>
             unat field = (length payload + 1) mod 2 ^ 16))"
proof -
  have "decode_frame ([ucast len, ucast (drop_bit 8 len), opcode] @ payload) =
          Inr (len, opcode, payload)"
    by (rule decode_frame_bytes)
  moreover have "decode_frame
      ([ucast (of_nat (Suc (length payload)) :: 16 word),
        ucast (drop_bit 8 (of_nat (Suc (length payload)) :: 16 word)), opcode] @ payload) =
          Inr (of_nat (Suc (length payload)), opcode, payload)"
    by (rule decode_frame_bytes)
  moreover have "unat (of_nat (Suc (length payload)) :: 16 word) = (length payload + 1) mod 2 ^ 16"
    by (simp add: unat_of_nat del: of_nat_Suc)
  ultimately show ?thesis
    by (simp add: encode_prepend_frame encode_with_header_frame del: of_nat_Suc)
qed

section \<open>Strings\<close>

lemma ReadString_loop_unterminated:
  "\<not> has_terminator buf \<Longrightarrow>
   ReadString_loop \<lparr>Reader_s = pre @ buf, Reader_i = length pre\<rparr> acc =
     (acc @ unterminated_result buf,
      \<lparr>Reader_s = pre @ buf, Reader_i = length pre + length buf\<rparr>)"
proof (induction buf arbitrary: pre acc rule: unterminated_result.induct)
  case (1 a b rest)
  have "ReadString_loop
          \<lparr>Reader_s = (pre @ [a, b]) @ rest, Reader_i = length (pre @ [a, b])\<rparr> (acc @ [a, b]) =
        ((acc @ [a, b]) @ unterminated_result rest,
         \<lparr>Reader_s = (pre @ [a, b]) @ rest, Reader_i = length (pre @ [a, b]) + length rest\<rparr>)"
    using 1 by (intro "1.IH") auto
  then show ?case using "1.prems"
    by (subst ReadString_loop.simps) (auto simp add: Reader_ReadByte_def Let_def nth_append)
next
  case (2 a)
  show ?case
    apply (subst ReadString_loop.simps)
    apply (simp add: Reader_ReadByte_def Let_def nth_append)
    apply (subst ReadString_loop.simps)
    apply (simp add: Reader_ReadByte_def Let_def nth_append)
    done
next
  case 3
  show ?case
    by (subst ReadString_loop.simps) (simp add: Reader_ReadByte_def Let_def)
qed

text \<open>
  On every reader the loop keeps the data, never moves the index backwards and never moves
  it past the end of the data.
\<close>

lemma ReadString_loop_index:
  "Reader_s (snd (ReadString_loop r acc)) = Reader_s r \<and>
   Reader_i r \<le> Reader_i (snd (ReadString_loop r acc)) \<and>
   Reader_i (snd (ReadString_loop r acc)) \<le> max (Reader_i r) (length (Reader_s r))"
proof (induction r acc rule: ReadString_loop.induct)
  case (1 r result)
  let ?fb = "fst (Reader_ReadByte r)"
  let ?r1 = "snd (snd (Reader_ReadByte r))"
  let ?sb = "fst (Reader_ReadByte ?r1)"
  let ?r2 = "snd (snd (Reader_ReadByte ?r1))"
  have r2: "Reader_s ?r2 = Reader_s r \<and> Reader_i r \<le> Reader_i ?r2 \<and>
            Reader_i ?r2 \<le> max (Reader_i r) (length (Reader_s r)) \<and>
            max (Reader_i ?r2) (length (Reader_s r)) = max (Reader_i r) (length (Reader_s r))"
    by (auto simp add: Reader_ReadByte_def)
  show ?case
  proof (cases "?fb = 0 \<and> ?sb = 0")
    case True
    then have "ReadString_loop r result = (result, ?r2)"
      by (subst ReadString_loop.simps) (simp add: Let_def)
    with r2 show ?thesis by simp
  next
    case False
    then have eq: "ReadString_loop r result = ReadString_loop ?r2 (result @ [?fb, ?sb])"
      by (subst ReadString_loop.simps) (auto simp add: Let_def)
    have "Reader_s (snd (ReadString_loop ?r2 (result @ [?fb, ?sb]))) = Reader_s ?r2 \<and>
          Reader_i ?r2 \<le> Reader_i (snd (ReadString_loop ?r2 (result @ [?fb, ?sb]))) \<and>
          Reader_i (snd (ReadString_loop ?r2 (result @ [?fb, ?sb])))
            \<le> max (Reader_i ?r2) (length (Reader_s ?r2))"
      using False by (intro "1.IH") auto
    with r2 eq show ?thesis by auto
  qed
qed

text \<open>
  Claim C7, as stated, fails: on the two-byte buffer \<open>0x61 0x62\<close>, which holds no zero
  byte at all, \<^verbatim>\<open>ReadString\<close> returns the string of these two bytes. Its result type is
  \<^verbatim>\<open>string\<close>; there is no failure to yield.
\<close>

theorem ReadString_no_failure_counterexample:
  "\<not> has_terminator [0x61, 0x62] \<and>
   ReadString (NewReader [0x61, 0x62]) =
     ([0x61, 0x62], \<lparr>Reader_s = [0x61, 0x62], Reader_i = 2\<rparr>)"
  by code_simp

text \<open>
  Claim C7, amended. \<^verbatim>\<open>ReadString\<close> returns on every reader (the function is total). On
  every buffer without a terminator pair it consumes exactly the available bytes, the
  index ending at the length of the buffer, and it returns, without signalling anything,
  the bytes read so far: all complete pairs, and a lone last byte, when it is not zero,
  paired with a zero byte.
\<close>

theorem ReadString_unterminated:
  "\<not> has_terminator buf \<Longrightarrow>
   ReadString (NewReader buf) =
     (unterminated_result buf, \<lparr>Reader_s = buf, Reader_i = length buf\<rparr>)"
  using ReadString_loop_unterminated [of buf "[]" "[]"]
  by (simp add: ReadString_def NewReader_def)

theorem ReadString_unterminated_witness:
  "\<not> has_terminator [0x61, 0x62, 0x63] \<and>
   ReadString (NewReader [0x61, 0x62, 0x63]) =
     ([0x61, 0x62, 0x63, 0], \<lparr>Reader_s = [0x61, 0x62, 0x63], Reader_i = 3\<rparr>)"
  using ReadString_unterminated [of "[0x61, 0x62, 0x63]"] by simp

lemma decoderune_ascii: "b < 0x80 \<Longrightarrow> decoderune (b # t) = (ucast b, 1)"
  by (simp add: decoderune_def)

lemma range_runes_ascii:
  "\<forall>b \<in> set s. b < 0x80 \<Longrightarrow> range_runes s = map ucast s"
proof (induction s)
  case Nil
  show ?case by (subst range_runes.simps) simp
next
  case (Cons b s)
  then show ?case by (subst range_runes.simps) (simp add: decoderune_ascii)
qed

lemma ascii_low: "(ucast (ucast (ucast (b :: byte) :: rune) :: 16 word) :: byte) = b"
  by (rule bit_word_eqI) (auto simp add: bit_simps)

lemma ascii_high: "(ucast (drop_bit 8 (ucast (ucast (b :: byte) :: rune) :: 16 word)) :: byte) = 0"
  by (rule bit_word_eqI) (auto simp add: bit_simps dest: bit_imp_le_length)

lemma WriteString_loop_ascii:
  "WriteString_loop buf (map ucast s) = Inr (buf @ utf16_bytes s)"
  by (induction s arbitrary: buf)
     (simp_all add: utf16_bytes_def WriteUInt16_def ascii_low ascii_high)

lemma WriteString_ascii:
  "\<forall>b \<in> set s. b < 0x80 \<Longrightarrow> WriteString NewBuffer s = Inr (utf16_bytes s @ [0, 0])"
  by (simp add: WriteString_def range_runes_ascii WriteString_loop_ascii WriteUInt16_def
      NewBuffer_def)

lemma ReadString_loop_utf16:
  "\<forall>b \<in> set s. b \<noteq> 0 \<Longrightarrow>
   ReadString_loop \<lparr>Reader_s = pre @ utf16_bytes s @ [0, 0], Reader_i = length pre\<rparr> acc =
     (acc @ utf16_bytes s,
      \<lparr>Reader_s = pre @ utf16_bytes s @ [0, 0], Reader_i = length pre + 2 * length s + 2\<rparr>)"
proof (induction s arbitrary: pre acc)
  case Nil
  show ?case
    by (subst ReadString_loop.simps)
       (simp add: utf16_bytes_def Reader_ReadByte_def Let_def nth_append)
next
  case (Cons b s)
  have "ReadString_loop
          \<lparr>Reader_s = (pre @ [b, 0]) @ utf16_bytes s @ [0, 0], Reader_i = length (pre @ [b, 0])\<rparr>
          (acc @ [b, 0]) =
        ((acc @ [b, 0]) @ utf16_bytes s,
         \<lparr>Reader_s = (pre @ [b, 0]) @ utf16_bytes s @ [0, 0],
          Reader_i = length (pre @ [b, 0]) + 2 * length s + 2\<rparr>)"
    using Cons.prems by (intro Cons.IH) simp
  then show ?case using Cons.prems
    by (subst ReadString_loop.simps)
       (simp add: utf16_bytes_def Reader_ReadByte_def Let_def nth_append)
qed

lemma length_utf16_bytes: "length (utf16_bytes s) = 2 * length s"
  by (induction s) (simp_all add: utf16_bytes_def)

text \<open>
  Claim C6 fails on the code for every non-empty string of ASCII characters other than
  NUL (code points that fit in 16 bits): \<^verbatim>\<open>WriteString\<close> emits the UTF-16LE code units and
  the terminator, and \<^verbatim>\<open>ReadString\<close> on these bytes returns the bytes of the code units,
  undecoded, as its string: every character followed by a zero byte. That is never the
  string written. For the one-character string \<open>a\<close> it is the two-byte string
  \<open>0x61 0x00\<close>.
\<close>

theorem WriteString_ReadString_ascii:
  assumes "\<forall>b \<in> set s. b \<noteq> 0 \<and> b < 0x80"
  shows "case WriteString NewBuffer s of
           Inl err \<Rightarrow> False
         | Inr written \<Rightarrow>
             fst (ReadString (NewReader written)) = utf16_bytes s \<and>
             (s \<noteq> [] \<longrightarrow> fst (ReadString (NewReader written)) \<noteq> s)"
proof -
  from assms have w: "WriteString NewBuffer s = Inr (utf16_bytes s @ [0, 0])"
    by (simp add: WriteString_ascii)
  from assms have "ReadString_loop
      \<lparr>Reader_s = [] @ utf16_bytes s @ [0, 0], Reader_i = length ([] :: byte list)\<rparr> [] =
     ([] @ utf16_bytes s,
      \<lparr>Reader_s = [] @ utf16_bytes s @ [0, 0],
       Reader_i = length ([] :: byte list) + 2 * length s + 2\<rparr>)"
    by (intro ReadString_loop_utf16) simp
  then have r: "fst (ReadString (NewReader (utf16_bytes s @ [0, 0]))) = utf16_bytes s"
    by (simp add: ReadString_def NewReader_def)
  have "utf16_bytes s \<noteq> s" if "s \<noteq> []"
  proof
    assume "utf16_bytes s = s"
    then have "length (utf16_bytes s) = length s" by simp
    with that show False by (simp add: length_utf16_bytes)
  qed
  with w r show ?thesis by simp
qed

theorem WriteString_ReadString_ascii_witness:
  "WriteString NewBuffer [0x61] = Inr [0x61, 0, 0, 0] \<and>
   fst (ReadString (NewReader [0x61, 0, 0, 0])) = [0x61, 0] \<and>
   [0x61, 0] \<noteq> [0x61 :: byte]"
proof -
  have a: "\<forall>b \<in> set [0x61 :: byte]. b \<noteq> 0 \<and> b < 0x80" by simp
  have w: "WriteString NewBuffer [0x61] = Inr [0x61, 0, 0, 0]" by code_simp
  have u: "utf16_bytes [0x61] = [0x61, 0]" by (simp add: utf16_bytes_def)
  from WriteString_ReadString_ascii [OF a] show ?thesis
    unfolding w u by simp
qed

section \<open>Session registry: kickClient\<close>

lemma kickClient_loop_none:
  "(\<forall>j. i \<le> j \<and> j < length cs \<longrightarrow> Client_SessionID (cs ! j) \<noteq> Client_SessionID client) \<Longrightarrow>
   kickClient_loop cs client i = cs"
proof (induction cs client i rule: kickClient_loop.induct)
  case (1 cs client i)
  show ?case
  proof (cases "i < length cs")
    case True
    with "1.prems" have ne: "Client_SessionID (cs ! i) \<noteq> Client_SessionID client" by simp
    have "kickClient_loop cs client (i + 1) = cs"
      using True ne "1.prems" by (intro "1.IH") auto
    with True ne show ?thesis by (subst kickClient_loop.simps) simp
  next
    case False
    then show ?thesis by (subst kickClient_loop.simps) simp
  qed
qed

lemma kickClient_loop_first:
  "i \<le> k \<Longrightarrow> k < length cs \<Longrightarrow> Client_SessionID (cs ! k) = Client_SessionID client \<Longrightarrow>
   (\<forall>j. i \<le> j \<and> j < k \<longrightarrow> Client_SessionID (cs ! j) \<noteq> Client_SessionID client) \<Longrightarrow>
   kickClient_loop cs client i = take k cs @ drop (k + 1) cs"
proof (induction cs client i rule: kickClient_loop.induct)
  case (1 cs client i)
  show ?case
  proof (cases "i = k")
    case True
    with "1.prems" show ?thesis by (subst kickClient_loop.simps) simp
  next
    case False
    with "1.prems" have lt: "i < k" and ilen: "i < length cs" by auto
    with "1.prems" have ne: "Client_SessionID (cs ! i) \<noteq> Client_SessionID client" by simp
    have "kickClient_loop cs client (i + 1) = take k cs @ drop (k + 1) cs"
      using ilen ne lt "1.prems" by (intro "1.IH") auto
    with ilen ne show ?thesis by (subst kickClient_loop.simps) simp
  qed
qed

text \<open>
  Claim C8. For every server state, \<^verbatim>\<open>kickClient\<close> closes the client's transport and
  leaves the counters alone. When the client's session identifier is registered, the
  registry loses exactly one entry, the first one with that identifier, and keeps all
  others in order. When it is not registered, the registry is unchanged. The function
  has no error result and no branch that panics.
\<close>

theorem kickClient_evicts:
  "closed (kickClient l client) = insert (Client_Socket client) (closed l) \<and>
   status (kickClient l client) = status l \<and>
   ((\<exists>item \<in> set (clients l). Client_SessionID item = Client_SessionID client) \<longrightarrow>
      (\<exists>xs y ys. clients l = xs @ y # ys \<and>
         Client_SessionID y = Client_SessionID client \<and>
         (\<forall>x \<in> set xs. Client_SessionID x \<noteq> Client_SessionID client) \<and>
         clients (kickClient l client) = xs @ ys) \<and>
      length (clients (kickClient l client)) + 1 = length (clients l)) \<and>
   ((\<forall>item \<in> set (clients l). Client_SessionID item \<noteq> Client_SessionID client) \<longrightarrow>
      clients (kickClient l client) = clients l)"
proof -
  let ?P = "\<lambda>x. Client_SessionID x = Client_SessionID client"
  have cl: "clients (kickClient l client) = kickClient_loop (clients l) client 0"
    by (simp add: kickClient_def Let_def)
  have reg: "(\<exists>xs y ys. clients l = xs @ y # ys \<and> ?P y \<and> (\<forall>x \<in> set xs. \<not> ?P x) \<and>
         clients (kickClient l client) = xs @ ys) \<and>
      length (clients (kickClient l client)) + 1 = length (clients l)"
    if "\<exists>item \<in> set (clients l). ?P item"
  proof -
    from that obtain xs y ys where d: "clients l = xs @ y # ys" "?P y" "\<forall>x \<in> set xs. \<not> ?P x"
      using split_list_first_prop [of "clients l" ?P] by blast
    have "kickClient_loop (clients l) client 0 =
            take (length xs) (clients l) @ drop (length xs + 1) (clients l)"
      using d by (intro kickClient_loop_first) (auto simp add: nth_append)
    then have "clients (kickClient l client) = xs @ ys"
      using d cl by simp
    with d show ?thesis by auto
  qed
  have unreg: "clients (kickClient l client) = clients l"
    if "\<forall>item \<in> set (clients l). \<not> ?P item"
    using that cl kickClient_loop_none [of 0 "clients l" client] by simp
  show ?thesis
    using reg unreg by (simp add: kickClient_def Let_def)
qed

theorem kickClient_evicts_witness:
  "(\<exists>item \<in> set (clients (example_server 0)).
      Client_SessionID item = Client_SessionID (example_client 2)) \<and>
   length (clients (kickClient (example_server 0) (example_client 2))) + 1 =
     length (clients (example_server 0)) \<and>
   closed (kickClient (example_server 0) (example_client 2)) = {2} \<and>
   \<not> (\<exists>item \<in> set (clients (example_server 0)).
      Client_SessionID item = Client_SessionID (example_client 4)) \<and>
   clients (kickClient (example_server 0) (example_client 4)) = clients (example_server 0)"
proof -
  have reg: "\<exists>item \<in> set (clients (example_server 0)).
      Client_SessionID item = Client_SessionID (example_client 2)"
    by (simp add: example_server_def example_client_def)
  have unreg: "\<forall>item \<in> set (clients (example_server 0)).
      Client_SessionID item \<noteq> Client_SessionID (example_client 4)"
    by code_simp
  have cl: "insert (Client_Socket (example_client 2)) (closed (example_server 0)) = {2}"
    by (simp add: example_server_def example_client_def)
  from kickClient_evicts [of "example_server 0" "example_client 2"] reg
  have a: "length (clients (kickClient (example_server 0) (example_client 2))) + 1 =
             length (clients (example_server 0))"
    and c: "closed (kickClient (example_server 0) (example_client 2)) =
             insert (Client_Socket (example_client 2)) (closed (example_server 0))"
    by blast+
  from kickClient_evicts [of "example_server 0" "example_client 4"] unreg
  have b: "clients (kickClient (example_server 0) (example_client 4)) =
             clients (example_server 0)"
    by blast
  show ?thesis using reg unreg a b c cl by simp
qed

section \<open>Authentication state machine\<close>

text \<open>
  Claim C2 fails on the code at the target server id 0, for every world directory of
  fewer than 256 game servers, every session prefix and every account:
  \<^verbatim>\<open>len(l.config.GameServers) >= 0\<close> holds, so the handler goes on to
  \<^verbatim>\<open>l.config.GameServers[requestPlay.ServerID-1]\<close>, whose index is 255 in the byte
  arithmetic of the id, and the access panics. No play-failure packet is sent and no
  counter is incremented.
\<close>

theorem play_request_server_id_zero:
  assumes "RequestPlay_ServerID (NewRequestPlay co data) = 0"
    and "length (config_GameServers l) < 256"
  shows "handleClientPacket co l client 2 data = Inl PanicIndexOutOfRange"
proof -
  have m: "(- 1 :: byte) = 255" by simp
  have "unat (- 1 :: byte) = 255" unfolding m by simp
  with assms show ?thesis
    by (simp add: handleClientPacket_def handleRequestPlay_def Let_def)
qed

theorem play_request_server_id_zero_witness:
  "RequestPlay_ServerID (NewRequestPlay example_collaborators [1, 1, 1, 1, 1, 1, 1, 1, 0]) = 0 \<and>
   length (config_GameServers (example_server 0)) < 256 \<and>
   handleClientPacket example_collaborators (example_server 0) (example_client 1) 2
     [1, 1, 1, 1, 1, 1, 1, 1, 0] = Inl PanicIndexOutOfRange"
proof -
  have 1: "RequestPlay_ServerID
             (NewRequestPlay example_collaborators [1, 1, 1, 1, 1, 1, 1, 1, 0]) = 0"
    by (simp add: example_collaborators_def)
  have 2: "length (config_GameServers (example_server 0)) < 256"
    by (simp add: example_server_def)
  from play_request_server_id_zero [OF 1 2] 1 2 show ?thesis by simp
qed

text \<open>
  Claim C3, as stated, fails on the packet type. At the target server id 1 (in range, not
  a testing realm) and the session prefix of eight zero bytes, on the connection whose
  session identifier is sixteen bytes of 1, hack-attempts goes from 5 to 6 and nothing
  else in the server or the client changes, but the packet sent is the login-fail packet,
  not the play-fail packet.
\<close>

theorem play_request_session_mismatch_counterexample:
  "handleClientPacket example_collaborators (example_server 5) (example_client 1) 2
     [0, 0, 0, 0, 0, 0, 0, 0, 1] =
   Inr ((example_server 5)\<lparr>status := (status (example_server 5))\<lparr>hackAttempts := 6\<rparr>\<rparr>,
        example_client 1,
        Some (NewLoginFailPacket REASON_ACCESS_FAILED)) \<and>
   NewLoginFailPacket REASON_ACCESS_FAILED \<noteq> NewPlayFailPacket REASON_ACCESS_FAILED"
  by code_simp

text \<open>
  Claim C3, amended. For every play request whose target server id is within the world
  directory (from 1 to its length) and passes the access condition, and whose session
  prefix differs from the first 8 bytes of the connection's session identifier:
  hack-attempts is incremented by exactly one (in the 32-bit arithmetic of the counter),
  the packet sent is the login-fail packet with the access-denied reason, the same that
  the server-list request gets on a mismatch, and the iteration ends normally with the
  registry and the sockets untouched, so the connection stays open for further requests.
\<close>

theorem play_request_session_mismatch_reply:
  assumes id: "1 \<le> unat (RequestPlay_ServerID (NewRequestPlay co data))"
      "unat (RequestPlay_ServerID (NewRequestPlay co data)) \<le> length (config_GameServers l)"
    and access: "Options_Testing
        (config_GameServers l ! (unat (RequestPlay_ServerID (NewRequestPlay co data)) - 1)) = False
      \<or> sint (Account_AccessLevel (Client_Account client)) > sint (ACCESS_LEVEL_PLAYER co)"
    and sid: "8 \<le> length (Client_SessionID client)"
    and mismatch:
      "RequestPlay_SessionID (NewRequestPlay co data) \<noteq> take 8 (Client_SessionID client)"
  shows "handleClientPacket co l client 2 data =
           Inr (inc_hackAttempts l, client, Some (NewLoginFailPacket REASON_ACCESS_FAILED)) \<and>
         hackAttempts (status (inc_hackAttempts l)) = hackAttempts (status l) + 1 \<and>
         clients (inc_hackAttempts l) = clients l \<and>
         closed (inc_hackAttempts l) = closed l"
proof -
  let ?id = "RequestPlay_ServerID (NewRequestPlay co data)"
  have "?id \<noteq> 0" using id by auto
  then have idx: "unat (?id - 1) = unat ?id - 1"
    by (simp add: unat_minus_one)
  then have "unat (?id - 1) < length (config_GameServers l)" using id by simp
  with id access sid mismatch idx
  have "handleRequestPlay co l client data =
          Inr (inc_hackAttempts l, client, NewLoginFailPacket REASON_ACCESS_FAILED)"
    by (auto simp add: handleRequestPlay_def Let_def)
  then show ?thesis
    by (simp add: handleClientPacket_def inc_hackAttempts_def)
qed

theorem play_request_session_mismatch_reply_witness:
  "handleClientPacket example_collaborators (example_server 0) (example_client 1) 2
     [9, 9, 9, 9, 9, 9, 9, 9, 1] =
     Inr (inc_hackAttempts (example_server 0), example_client 1,
          Some (NewLoginFailPacket REASON_ACCESS_FAILED)) \<and>
   hackAttempts (status (inc_hackAttempts (example_server 0))) = 1"
proof -
  let ?rp = "NewRequestPlay example_collaborators [9, 9, 9, 9, 9, 9, 9, 9, 1]"
  have 1: "1 \<le> unat (RequestPlay_ServerID ?rp)"
    and 2: "unat (RequestPlay_ServerID ?rp) \<le> length (config_GameServers (example_server 0))"
    and 3: "Options_Testing (config_GameServers (example_server 0) !
              (unat (RequestPlay_ServerID ?rp) - 1)) = False
            \<or> sint (Account_AccessLevel (Client_Account (example_client 1)))
                > sint (ACCESS_LEVEL_PLAYER example_collaborators)"
    and 4: "8 \<le> length (Client_SessionID (example_client 1))"
    and 5: "RequestPlay_SessionID ?rp \<noteq> take 8 (Client_SessionID (example_client 1))"
    by code_simp+
  have h: "hackAttempts (status (example_server 0)) = 0"
    by (simp add: example_server_def)
  from play_request_session_mismatch_reply [OF 1 2 3 4 5] h show ?thesis by simp
qed

subsection \<open>Counters\<close>

lemma counter_step_le: "counter_step c c' \<Longrightarrow> c \<noteq> 0xFFFFFFFF \<Longrightarrow> c \<le> c'"
proof -
  assume st: "counter_step c c'" and "c \<noteq> 0xFFFFFFFF"
  have "(0xFFFFFFFF :: 32 word) = - 1" by simp
  with \<open>c \<noteq> 0xFFFFFFFF\<close> have "c \<noteq> - 1" by metis
  then have "\<not> c + 1 \<le> c" using inc_less_eq_triv_imp [of c] by blast
  then have "c \<le> c + 1" by simp
  with st show ?thesis by (auto simp add: counter_step_def)
qed

lemma status_step_refl: "status_step (status l) (status l)"
  by (simp add: status_step_def counter_step_def)

lemma status_step_inc:
  "status_step (status l) (status (inc_successfulAccountCreation l))"
  "status_step (status l) (status (inc_failedAccountCreation l))"
  "status_step (status l) (status (inc_successfulLogins l))"
  "status_step (status l) (status (inc_failedLogins l))"
  "status_step (status l) (status (inc_hackAttempts l))"
  by (simp_all add: status_step_def counter_step_def inc_successfulAccountCreation_def
      inc_failedAccountCreation_def inc_successfulLogins_def inc_failedLogins_def
      inc_hackAttempts_def)

lemma handleRequestAuthLogin_status:
  "status_step (status l) (status (fst (handleRequestAuthLogin co l client data)))"
  by (simp add: handleRequestAuthLogin_def Let_def status_step_refl status_step_inc
      split: query_result.split option.split)

lemma handleRequestPlay_status:
  "handleRequestPlay co l client data = Inr (l', client', buffer) \<Longrightarrow>
   status_step (status l) (status l')"
  by (auto simp add: handleRequestPlay_def Let_def status_step_refl status_step_inc
      split: if_splits)

lemma handleRequestServerList_status:
  "handleRequestServerList co l client data = Inr (l', client', buffer) \<Longrightarrow>
   status_step (status l) (status l')"
  by (auto simp add: handleRequestServerList_def Let_def status_step_refl status_step_inc
      split: if_splits)

lemma handleClientPacket_status:
  assumes "handleClientPacket co l client opcode data = Inr (l', client', pkt)"
  shows "status_step (status l) (status l')"
proof -
  consider "opcode = 0" | "opcode = 2" | "opcode = 5"
    | "opcode \<noteq> 0 \<and> opcode \<noteq> 2 \<and> opcode \<noteq> 5"
    by blast
  then show ?thesis
  proof cases
    case 1
    with assms have "l' = fst (handleRequestAuthLogin co l client data)"
      by (auto simp add: handleClientPacket_def split: prod.splits)
    then show ?thesis by (simp add: handleRequestAuthLogin_status)
  next
    case 2
    with assms obtain buffer
      where "handleRequestPlay co l client data = Inr (l', client', buffer)"
      by (auto simp add: handleClientPacket_def split: sum.splits)
    then show ?thesis by (rule handleRequestPlay_status)
  next
    case 3
    with assms obtain buffer
      where "handleRequestServerList co l client data = Inr (l', client', buffer)"
      by (auto simp add: handleClientPacket_def split: sum.splits)
    then show ?thesis by (rule handleRequestServerList_status)
  next
    case 4
    with assms have "l' = l" by (simp add: handleClientPacket_def)
    then show ?thesis by (simp add: status_step_refl)
  qed
qed

text \<open>
  Claim C9, as stated, fails: the counters are \<^verbatim>\<open>uint32\<close> and \<^verbatim>\<open>+= 1\<close> wraps. With
  hack-attempts at \<open>2^32 - 1\<close>, a server-list request whose session prefix does not match
  takes the counter to 0.
\<close>

theorem counter_wraps_counterexample:
  "handleClientPacket example_collaborators (example_server 0xFFFFFFFF) (example_client 1) 5
     [0, 0, 0, 0, 0, 0, 0, 0] =
   Inr ((example_server 0xFFFFFFFF)
          \<lparr>status := (status (example_server 0xFFFFFFFF))\<lparr>hackAttempts := 0\<rparr>\<rparr>,
        example_client 1,
        Some (NewLoginFailPacket REASON_ACCESS_FAILED)) \<and>
   hackAttempts (status ((example_server 0xFFFFFFFF)
          \<lparr>status := (status (example_server 0xFFFFFFFF))\<lparr>hackAttempts := 0\<rparr>\<rparr>))
     < hackAttempts (status (example_server 0xFFFFFFFF))"
  by code_simp

text \<open>
  Claim C9, amended. For every client packet that the state machine handles to the end
  (every opcode branch, success or failure), each of the five status counters is left
  either unchanged or incremented by one in 32-bit arithmetic. So a counter below
  \<open>2^32 - 1\<close> is never decreased or reset by a handling step.
\<close>

theorem handleClientPacket_counters:
  assumes "handleClientPacket co l client opcode data = Inr (l', client', pkt)"
  shows "status_step (status l) (status l') \<and>
    (successfulAccountCreation (status l) \<noteq> 0xFFFFFFFF \<longrightarrow>
       successfulAccountCreation (status l) \<le> successfulAccountCreation (status l')) \<and>
    (failedAccountCreation (status l) \<noteq> 0xFFFFFFFF \<longrightarrow>
       failedAccountCreation (status l) \<le> failedAccountCreation (status l')) \<and>
    (successfulLogins (status l) \<noteq> 0xFFFFFFFF \<longrightarrow>
       successfulLogins (status l) \<le> successfulLogins (status l')) \<and>
    (failedLogins (status l) \<noteq> 0xFFFFFFFF \<longrightarrow>
       failedLogins (status l) \<le> failedLogins (status l')) \<and>
    (hackAttempts (status l) \<noteq> 0xFFFFFFFF \<longrightarrow>
       hackAttempts (status l) \<le> hackAttempts (status l'))"
proof -
  have st: "status_step (status l) (status l')"
    using assms by (rule handleClientPacket_status)
  then show ?thesis
    unfolding status_step_def by (blast intro: counter_step_le)
qed

theorem handleClientPacket_counters_witness:
  "handleClientPacket example_collaborators (example_server 5) (example_client 1) 5
     [0, 0, 0, 0, 0, 0, 0, 0] =
   Inr ((example_server 5)\<lparr>status := (status (example_server 5))\<lparr>hackAttempts := 6\<rparr>\<rparr>,
        example_client 1,
        Some (NewLoginFailPacket REASON_ACCESS_FAILED)) \<and>
   hackAttempts (status (example_server 5)) \<noteq> 0xFFFFFFFF \<and>
   hackAttempts (status (example_server 5)) \<le> 6"
proof -
  have h: "handleClientPacket example_collaborators (example_server 5) (example_client 1) 5
     [0, 0, 0, 0, 0, 0, 0, 0] =
   Inr ((example_server 5)\<lparr>status := (status (example_server 5))\<lparr>hackAttempts := 6\<rparr>\<rparr>,
        example_client 1,
        Some (NewLoginFailPacket REASON_ACCESS_FAILED))"
    by code_simp
  have n: "hackAttempts (status (example_server 5)) \<noteq> 0xFFFFFFFF"
    by (simp add: example_server_def)
  from handleClientPacket_counters [OF h] n
  have "hackAttempts (status (example_server 5)) \<le> hackAttempts (status
          ((example_server 5)\<lparr>status := (status (example_server 5))\<lparr>hackAttempts := 6\<rparr>\<rparr>))"
    by blast
  with h n show ?thesis by simp
qed

section \<open>Crypto engine: Blowfish\<close>

lemma go_copy_zero_pad:
  "length src \<le> n \<Longrightarrow> go_copy (replicate n 0) src = src @ replicate (n - length src) 0"
  by (simp add: go_copy_def)

lemma div_block: "0 < (bs::nat) \<Longrightarrow> r < bs \<Longrightarrow> (q * bs + r) div bs = q"
  by simp

lemma padded_length:
  assumes "0 < (bs::nat)"
  shows "((n + bs - 1) div bs) * bs = n + (bs - n mod bs) mod bs"
proof (cases "n mod bs = 0")
  case True
  then obtain q where q: "n = q * bs" by (metis mod_eq_0_iff_dvd dvd_def mult.commute)
  have "n + bs - 1 = q * bs + (bs - 1)" using q assms by arith
  then have "(n + bs - 1) div bs = q" using div_block [of bs "bs - 1" q] assms by simp
  with q True assms show ?thesis by simp
next
  case False
  define r where "r = n mod bs"
  define q where "q = n div bs"
  have n: "n = q * bs + r" by (simp add: q_def r_def)
  have r: "0 < r" "r < bs" using False assms by (auto simp add: r_def)
  have "n + bs - 1 = (q + 1) * bs + (r - 1)" using n r by simp
  then have "(n + bs - 1) div bs = q + 1" using div_block [of bs "r - 1" "q + 1"] r by simp
  then have "((n + bs - 1) div bs) * bs = (q + 1) * bs" by simp
  moreover have "(bs - n mod bs) mod bs = bs - r" using r by (simp add: r_def)
  ultimately show ?thesis using n r by simp
qed

lemma length_map_blocks:
  "(\<forall>b. length b = bs \<longrightarrow> length (f b) = bs) \<Longrightarrow> length src = k * bs \<Longrightarrow>
   length (map_blocks f bs src k) = k * bs"
  by (induction k arbitrary: src) auto

lemma blocks_loop_map_blocks:
  "0 < bs \<Longrightarrow> (\<forall>b. length b = bs \<longrightarrow> length (f b) = bs) \<Longrightarrow>
   length src = i + k * bs \<Longrightarrow> length dst = length src \<Longrightarrow>
   blocks_loop f bs src dst i = take i dst @ map_blocks f bs (drop i src) k"
proof (induction k arbitrary: i dst)
  case 0
  then show ?case by (subst blocks_loop.simps) simp
next
  case (Suc k)
  let ?blk = "f (take bs (drop i src))"
  let ?dst = "write_block dst i ?blk"
  have lb: "length ?blk = bs" using Suc.prems by simp
  have ld: "length ?dst = length src" using Suc.prems lb by (simp add: write_block_def)
  have tk: "take (i + bs) ?dst = take i dst @ ?blk"
    using Suc.prems lb by (simp add: write_block_def)
  have "blocks_loop f bs src ?dst (i + bs) = take (i + bs) ?dst @ map_blocks f bs (drop (i + bs) src) k"
    using Suc.prems ld by (intro Suc.IH) auto
  moreover have "blocks_loop f bs src dst i = blocks_loop f bs src ?dst (i + bs)"
    using Suc.prems by (subst blocks_loop.simps) simp
  ultimately show ?case using tk by (simp add: add.commute)
qed

lemma map_blocks_inverse:
  "(\<forall>b. length b = bs \<longrightarrow> length (f b) = bs \<and> g (f b) = b) \<Longrightarrow> length src = k * bs \<Longrightarrow>
   map_blocks g bs (map_blocks f bs src k) k = src"
proof (induction k arbitrary: src)
  case 0
  then show ?case by simp
next
  case (Suc k)
  have lt: "length (take bs src) = bs" using Suc.prems by simp
  then have lf: "length (f (take bs src)) = bs" and gf: "g (f (take bs src)) = take bs src"
    using Suc.prems by blast+
  have "map_blocks g bs (map_blocks f bs (drop bs src) k) k = drop bs src"
    using Suc.prems by (intro Suc.IH) auto
  with lf gf show ?case by simp
qed

text \<open>
  Claim C4. For every plaintext \<open>m\<close> and every key for which the login-channel block
  cipher initializes successfully, to a cipher that keeps the contract of a block cipher,
  \<^verbatim>\<open>EncryptBlowfish\<close> succeeds and \<^verbatim>\<open>DecryptBlowfish\<close> of its result returns \<open>m\<close> followed by
  zero bytes up to the next multiple of the block size; it returns \<open>m\<close> itself when the
  length of \<open>m\<close> is a multiple of the block size.
\<close>

theorem Blowfish_roundtrip:
  assumes new: "blowfish_NewCipher key = Some c"
    and ok: "block_cipher c"
    and init: "InitializeBlowfish blowfish_NewCipher ce0 key = Inr ce"
  shows "case EncryptBlowfish ce m of
           Inl err \<Rightarrow> False
         | Inr ct \<Rightarrow>
             DecryptBlowfish ce ct =
               Inr (m @ replicate ((BlockSize c - length m mod BlockSize c) mod BlockSize c) 0) \<and>
             (length m mod BlockSize c = 0 \<longrightarrow> DecryptBlowfish ce ct = Inr m)"
proof -
  let ?bs = "BlockSize c"
  let ?k = "(length m + ?bs - 1) div ?bs"
  let ?pad = "(?bs - length m mod ?bs) mod ?bs"
  let ?padded = "m @ replicate ?pad 0"
  have c: "blowfishCipher ce = Some c"
    using new init by (auto simp add: InitializeBlowfish_def)
  have bs: "0 < ?bs" using ok by (simp add: block_cipher_def)
  have enc: "\<forall>b. length b = ?bs \<longrightarrow>
      length (Block_Encrypt c b) = ?bs \<and> length (Block_Decrypt c b) = ?bs \<and>
      Block_Decrypt c (Block_Encrypt c b) = b"
    using ok by (simp add: block_cipher_def)
  have len: "?k * ?bs = length m + ?pad" using bs by (rule padded_length)
  then have pd: "go_copy (replicate (?k * ?bs) 0) m = ?padded"
    by (simp add: go_copy_zero_pad)
  have lp: "length ?padded = 0 + ?k * ?bs" using len by simp
  let ?ct = "map_blocks (Block_Encrypt c) ?bs ?padded ?k"
  have "blocks_loop (Block_Encrypt c) ?bs ?padded (replicate (length ?padded) 0) 0 =
          take 0 (replicate (length ?padded) 0) @
          map_blocks (Block_Encrypt c) ?bs (drop 0 ?padded) ?k"
    using bs enc lp by (intro blocks_loop_map_blocks) auto
  then have e: "EncryptBlowfish ce m = Inr ?ct"
    using c bs pd by (simp add: EncryptBlowfish_def Let_def)
  have lct: "length ?ct = ?k * ?bs"
    using enc lp by (intro length_map_blocks) auto
  have "blocks_loop (Block_Decrypt c) ?bs ?ct (replicate (length ?ct) 0) 0 =
          take 0 (replicate (length ?ct) 0) @
          map_blocks (Block_Decrypt c) ?bs (drop 0 ?ct) ?k"
    using bs enc lct by (intro blocks_loop_map_blocks) auto
  moreover have "map_blocks (Block_Decrypt c) ?bs ?ct ?k = ?padded"
    using enc lp by (intro map_blocks_inverse) auto
  ultimately have d: "DecryptBlowfish ce ?ct = Inr ?padded"
    using c bs lct by (simp add: DecryptBlowfish_def Let_def)
  from e d show ?thesis by auto
qed

theorem Blowfish_roundtrip_witness:
  "InitializeBlowfish (\<lambda>key. Some example_block) NewCryptoEngine [1] =
     Inr (NewCryptoEngine\<lparr>blowfishCipher := Some example_block\<rparr>) \<and>
   block_cipher example_block \<and>
   EncryptBlowfish (NewCryptoEngine\<lparr>blowfishCipher := Some example_block\<rparr>) [1, 2, 3] =
     Inr [2, 3, 4, 1, 1, 1, 1, 1] \<and>
   DecryptBlowfish (NewCryptoEngine\<lparr>blowfishCipher := Some example_block\<rparr>)
     [2, 3, 4, 1, 1, 1, 1, 1] = Inr [1, 2, 3, 0, 0, 0, 0, 0]"
proof -
  let ?E = "NewCryptoEngine\<lparr>blowfishCipher := Some example_block\<rparr>"
  have new: "(\<lambda>key :: byte list. Some example_block) [1] = Some example_block"
    by simp
  have init: "InitializeBlowfish (\<lambda>key. Some example_block) NewCryptoEngine [1] = Inr ?E"
    by (simp add: InitializeBlowfish_def)
  have ok: "block_cipher example_block"
    by (simp add: block_cipher_def example_block_def o_def)
  have enc: "EncryptBlowfish ?E [1, 2, 3] = Inr [2, 3, 4, 1, 1, 1, 1, 1]"
    by code_simp
  have pad: "[1, 2, 3] @ replicate ((BlockSize example_block -
               length [1, 2, 3 :: byte] mod BlockSize example_block) mod
               BlockSize example_block) 0 = [1, 2, 3, 0, 0, 0, 0, 0 :: byte]"
    by code_simp
  from Blowfish_roundtrip [OF new ok init, of "[1, 2, 3]"]
  have "DecryptBlowfish ?E [2, 3, 4, 1, 1, 1, 1, 1] = Inr [1, 2, 3, 0, 0, 0, 0, 0]"
    unfolding enc pad by simp
  with init ok enc show ?thesis by blast
qed

section \<open>Crypto engine: XOR\<close>

lemma EncryptXOR_Some:
  "xorCipher ce = Some cipher \<Longrightarrow>
   EncryptXOR X ce data = Inr (fst (xor_Encrypt X data (OutputKey cipher)), ce)"
  by (simp add: EncryptXOR_def go_copy_def Let_def split: prod.split)

lemma DecryptXOR_Some:
  "xorCipher ce = Some cipher \<Longrightarrow>
   DecryptXOR X ce data = Inr (fst (xor_Decrypt X data (InputKey cipher)), ce)"
  by (simp add: DecryptXOR_def go_copy_def Let_def split: prod.split)

lemma encrypt_all_Some:
  "xorCipher ce = Some cipher \<Longrightarrow>
   encrypt_all X ce ms = Inr (map (\<lambda>m. fst (xor_Encrypt X m (OutputKey cipher))) ms, ce)"
  by (induction ms) (simp_all add: EncryptXOR_Some)

lemma decrypt_all_Some:
  "xorCipher ce = Some cipher \<Longrightarrow>
   decrypt_all X ce cs = Inr (map (\<lambda>c. fst (xor_Decrypt X c (InputKey cipher))) cs, ce)"
  by (induction cs) (simp_all add: DecryptXOR_Some)

lemma InitializeXOR_keys:
  "InitializeXOR X ce0 key = Inr ce \<Longrightarrow> InputKey (xor_NewCipher X) = OutputKey (xor_NewCipher X) \<Longrightarrow>
   \<exists>cipher. xorCipher ce = Some cipher \<and> InputKey cipher = OutputKey cipher"
  by (auto simp add: InitializeXOR_def Let_def)

lemma example_xor_inverse: "xor_inverse example_xor"
  by (auto simp add: xor_inverse_def example_xor_def example_xor_apply_def o_def xor.assoc
      split: list.split)

text \<open>
  Claim C5, as stated, fails on its second half: the engine's keys do not move. With the
  sample package, whose functions do advance the key they are given, the engine
  initialized with the key \<open>1 .. 8\<close> encrypts the message \<open>0x10\<close> to \<open>0x11\<close> and is
  afterwards the engine it was, and it decrypts the second ciphertext of a sequence
  before any other to the second message.
\<close>

theorem XOR_engine_key_counterexample:
  "EncryptXOR example_xor
     \<lparr>blowfishCipher = None,
      xorCipher = Some \<lparr>InputKey = [1, 2, 3, 4, 5, 6, 7, 8],
                         OutputKey = [1, 2, 3, 4, 5, 6, 7, 8]\<rparr>\<rparr> [0x10] =
     Inr ([0x11],
          \<lparr>blowfishCipher = None,
           xorCipher = Some \<lparr>InputKey = [1, 2, 3, 4, 5, 6, 7, 8],
                              OutputKey = [1, 2, 3, 4, 5, 6, 7, 8]\<rparr>\<rparr>) \<and>
   snd (xor_Encrypt example_xor [0x10] [1, 2, 3, 4, 5, 6, 7, 8]) = [2, 2, 3, 4, 5, 6, 7, 8] \<and>
   encrypt_all example_xor
     \<lparr>blowfishCipher = None,
      xorCipher = Some \<lparr>InputKey = [1, 2, 3, 4, 5, 6, 7, 8],
                         OutputKey = [1, 2, 3, 4, 5, 6, 7, 8]\<rparr>\<rparr> [[0x10], [0x20]] =
     Inr ([[0x11], [0x21]],
          \<lparr>blowfishCipher = None,
           xorCipher = Some \<lparr>InputKey = [1, 2, 3, 4, 5, 6, 7, 8],
                              OutputKey = [1, 2, 3, 4, 5, 6, 7, 8]\<rparr>\<rparr>) \<and>
   DecryptXOR example_xor
     \<lparr>blowfishCipher = None,
      xorCipher = Some \<lparr>InputKey = [1, 2, 3, 4, 5, 6, 7, 8],
                         OutputKey = [1, 2, 3, 4, 5, 6, 7, 8]\<rparr>\<rparr> [0x21] =
     Inr ([0x20],
          \<lparr>blowfishCipher = None,
           xorCipher = Some \<lparr>InputKey = [1, 2, 3, 4, 5, 6, 7, 8],
                              OutputKey = [1, 2, 3, 4, 5, 6, 7, 8]\<rparr>\<rparr>)"
  by (simp add: EncryptXOR_def DecryptXOR_def example_xor_def example_xor_apply_def
      go_copy_def Let_def)

text \<open>
  Claim C5, amended. For every package \<open>xor\<close> whose \<^verbatim>\<open>Decrypt\<close> undoes its \<^verbatim>\<open>Encrypt\<close> under
  the same key, every engine initialized by \<^verbatim>\<open>InitializeXOR\<close> and every sequence of
  messages: encrypting the messages in order succeeds and leaves the engine as it was,
  since \<^verbatim>\<open>EncryptXOR\<close> and \<^verbatim>\<open>DecryptXOR\<close> hand the cipher a copy of the key and never advance
  the engine's own; decrypting the ciphertexts in the same order reproduces the original
  sequence; and decrypting them in any other order, or any selection of them, reproduces
  the corresponding originals as well.
\<close>

theorem XOR_decrypt_any_order:
  assumes inv: "xor_inverse X"
    and init: "InitializeXOR X ce0 key = Inr ce"
  shows "case encrypt_all X ce ms of
           Inl err \<Rightarrow> False
         | Inr (cs, ce1) \<Rightarrow>
             ce1 = ce \<and> length cs = length ms \<and>
             decrypt_all X ce1 cs = Inr (ms, ce) \<and>
             ((\<forall>i \<in> set order. i < length ms) \<longrightarrow>
                decrypt_all X ce1 (map (\<lambda>i. cs ! i) order) = Inr (map (\<lambda>i. ms ! i) order, ce))"
proof -
  from init inv obtain cipher
    where c: "xorCipher ce = Some cipher" and k: "InputKey cipher = OutputKey cipher"
    using InitializeXOR_keys [of X ce0 key ce] by (auto simp add: xor_inverse_def)
  have rt: "fst (xor_Decrypt X (fst (xor_Encrypt X d (OutputKey cipher))) (InputKey cipher)) = d" for d
    using inv k by (simp add: xor_inverse_def)
  let ?cs = "map (\<lambda>m. fst (xor_Encrypt X m (OutputKey cipher))) ms"
  have e: "encrypt_all X ce ms = Inr (?cs, ce)"
    using c by (rule encrypt_all_Some)
  have d1: "decrypt_all X ce ?cs = Inr (ms, ce)"
    using c rt by (simp add: decrypt_all_Some o_def)
  have d2: "decrypt_all X ce (map (\<lambda>i. ?cs ! i) order) = Inr (map (\<lambda>i. ms ! i) order, ce)"
    if "\<forall>i \<in> set order. i < length ms"
    using c rt that by (simp add: decrypt_all_Some o_def)
  from e d1 d2 show ?thesis by simp
qed

theorem XOR_decrypt_any_order_witness:
  "xor_inverse example_xor \<and>
   InitializeXOR example_xor NewCryptoEngine [1, 2, 3, 4, 5, 6, 7, 8] =
     Inr \<lparr>blowfishCipher = None,
          xorCipher = Some \<lparr>InputKey = [1, 2, 3, 4, 5, 6, 7, 8], OutputKey = [1, 2, 3, 4, 5, 6, 7, 8]\<rparr>\<rparr> \<and>
   encrypt_all example_xor
     \<lparr>blowfishCipher = None,
      xorCipher = Some \<lparr>InputKey = [1, 2, 3, 4, 5, 6, 7, 8], OutputKey = [1, 2, 3, 4, 5, 6, 7, 8]\<rparr>\<rparr>
     [[0x10], [0x20]] =
     Inr ([[0x11], [0x21]],
          \<lparr>blowfishCipher = None,
           xorCipher = Some \<lparr>InputKey = [1, 2, 3, 4, 5, 6, 7, 8], OutputKey = [1, 2, 3, 4, 5, 6, 7, 8]\<rparr>\<rparr>) \<and>
   decrypt_all example_xor
     \<lparr>blowfishCipher = None,
      xorCipher = Some \<lparr>InputKey = [1, 2, 3, 4, 5, 6, 7, 8], OutputKey = [1, 2, 3, 4, 5, 6, 7, 8]\<rparr>\<rparr>
     [[0x21], [0x11]] =
     Inr ([[0x20], [0x10]],
          \<lparr>blowfishCipher = None,
           xorCipher = Some \<lparr>InputKey = [1, 2, 3, 4, 5, 6, 7, 8], OutputKey = [1, 2, 3, 4, 5, 6, 7, 8]\<rparr>\<rparr>)"
proof -
  let ?E = "\<lparr>blowfishCipher = None,
          xorCipher = Some \<lparr>InputKey = [1, 2, 3, 4, 5, 6, 7, 8], OutputKey = [1, 2, 3, 4, 5, 6, 7, 8 :: byte]\<rparr>\<rparr>"
  have init: "InitializeXOR example_xor NewCryptoEngine [1, 2, 3, 4, 5, 6, 7, 8] = Inr ?E"
    by (simp add: InitializeXOR_def example_xor_def NewCryptoEngine_def go_copy_def Let_def)
  have enc: "encrypt_all example_xor ?E [[0x10], [0x20]] = Inr ([[0x11], [0x21]], ?E)"
    by (simp add: EncryptXOR_def example_xor_def example_xor_apply_def go_copy_def Let_def)
  have ord: "\<forall>i \<in> set [1, 0 :: nat]. i < length [[0x10], [0x20 :: byte]]"
    by simp
  have m1: "map (\<lambda>i. [[0x11], [0x21 :: byte]] ! i) [1, 0 :: nat] = [[0x21], [0x11]]"
    and m2: "map (\<lambda>i. [[0x10], [0x20 :: byte]] ! i) [1, 0 :: nat] = [[0x20], [0x10]]"
    by simp_all
  from XOR_decrypt_any_order [OF example_xor_inverse init, of "[[0x10], [0x20]]" "[1, 0]"]
  have "(\<forall>i \<in> set [1, 0 :: nat]. i < length [[0x10], [0x20 :: byte]]) \<longrightarrow>
        decrypt_all example_xor ?E (map (\<lambda>i. [[0x11], [0x21]] ! i) [1, 0]) =
          Inr (map (\<lambda>i. [[0x10], [0x20]] ! i) [1, 0], ?E)"
    by (simp only: enc sum.case prod.case) blast
  with ord have "decrypt_all example_xor ?E (map (\<lambda>i. [[0x11], [0x21]] ! i) [1, 0]) =
          Inr (map (\<lambda>i. [[0x10], [0x20]] ! i) [1, 0], ?E)"
    by blast
  then have dec: "decrypt_all example_xor ?E [[0x21], [0x11]] = Inr ([[0x20], [0x10]], ?E)"
    unfolding m1 m2 .
  from example_xor_inverse init enc dec show ?thesis by blast
qed


end
